theory Spec2Isabelle
  imports Complex_Main
begin

section \<open>Reamp Player: the event base class and the playback engine of player.js\<close>

text \<open>
  The theory embeds \<^verbatim>\<open>XObject\<close> and \<^verbatim>\<open>PlayerEngine\<close> of \<^verbatim>\<open>src/player.js\<close>.
  Every method becomes a function from the object before the call to an \<open>outcome\<close>: the
  object after a normal return, or the JavaScript error thrown together with the object as
  the throw left it (an exception does not undo the assignments made before it).

  What the host platform owns is kept in the same record, next to the fields of the
  JavaScript object: the nodes of the audio graph (\<open>graph\<close>), the network requests issued
  (\<open>requests\<close>) and the calls made to event listeners (\<open>delivered\<close>).
\<close>

subsection \<open>JavaScript values and errors\<close>

datatype js_error = TypeError

datatype 's outcome = Returned 's | Threw js_error 's

text \<open>The object an invocation leaves behind, whether it returned or threw.\<close>

fun after :: "'s outcome \<Rightarrow> 's" where
  "after (Returned s) = s"
| "after (Threw err s) = s"

fun returned :: "'s outcome \<Rightarrow> bool" where
  "returned (Returned s) = True"
| "returned (Threw err s) = False"

text \<open>
  A JavaScript array may have holes, and reading an index outside it (or a hole) yields
  \<^verbatim>\<open>undefined\<close>: arrays are lists of optional elements, \<open>js_get\<close> is \<^verbatim>\<open>xs[i]\<close> and
  \<open>js_set\<close> is \<^verbatim>\<open>xs[i] = v\<close> for an index \<open>i \<ge> 0\<close>, which extends the array when
  \<open>i\<close> is at or beyond its length.
\<close>

definition js_get :: "'a option list \<Rightarrow> int \<Rightarrow> 'a option" where
  "js_get xs i = (if 0 \<le> i \<and> i < int (length xs) then xs ! nat i else None)"

definition js_set :: "'a option list \<Rightarrow> nat \<Rightarrow> 'a \<Rightarrow> 'a option list" where
  "js_set xs i v =
     (if i < length xs then xs[i := Some v]
      else xs @ replicate (i - length xs) None @ [Some v])"

text \<open>\<^verbatim>\<open>xs.indexOf(x)\<close>: the first position of \<open>x\<close>, or \<open>-1\<close>.\<close>

fun indexOf_from :: "int \<Rightarrow> 'a list \<Rightarrow> 'a \<Rightarrow> int" where
  "indexOf_from k [] x = -1"
| "indexOf_from k (y # ys) x = (if y = x then k else indexOf_from (k + 1) ys x)"

definition indexOf :: "'a list \<Rightarrow> 'a \<Rightarrow> int" where
  "indexOf xs x = indexOf_from 0 xs x"

subsection \<open>XObject: the base class that supports events\<close>

text \<open>
  Listeners are opaque host functions; \<open>callback\<close> names one. Calling a listener is
  recorded in the trace \<open>delivered\<close> with the data passed. Listeners are taken to return
  normally and to leave the object alone.
\<close>

type_synonym callback = nat

datatype event_data = EmptyObject | Num int

text \<open>
  \<^verbatim>\<open>this.events\<close> is a plain object used as a table from event names to arrays of
  listeners. \<open>events\<close> holds its own properties. A property read \<^verbatim>\<open>this.events[evt]\<close>
  that finds no own property continues in \<^verbatim>\<open>Object.prototype\<close>, so it yields
  \<^verbatim>\<open>undefined\<close> only for names that are not inherited: \<open>object_prototype\<close> lists the
  properties every plain object inherits (ECMAScript, sections "Properties of the Object
  Prototype Object" and Annex B), each a function with its \<^verbatim>\<open>length\<close>, except
  \<^verbatim>\<open>__proto__\<close>, an accessor that yields the prototype object itself.

  An assignment \<^verbatim>\<open>this.events['__proto__'] = []\<close> creates no own property: it makes
  the new array the table's prototype. Reading \<^verbatim>\<open>__proto__\<close> afterwards yields that
  array, as the entry of \<open>events\<close> does here; names that the table would then inherit
  from the array are outside this model.
\<close>

datatype js_value = Undefined | Listeners "callback list" | Function nat | PlainObject

definition object_prototype :: "string \<Rightarrow> js_value" where
  "object_prototype name =
     (if name = ''constructor'' then Function 1
      else if name = ''hasOwnProperty'' then Function 1
      else if name = ''isPrototypeOf'' then Function 1
      else if name = ''propertyIsEnumerable'' then Function 1
      else if name = ''toLocaleString'' then Function 0
      else if name = ''toString'' then Function 0
      else if name = ''valueOf'' then Function 0
      else if name = ''__defineGetter__'' then Function 2
      else if name = ''__defineSetter__'' then Function 2
      else if name = ''__lookupGetter__'' then Function 1
      else if name = ''__lookupSetter__'' then Function 1
      else if name = ''__proto__'' then PlainObject
      else Undefined)"

record xobject =
  events :: "string \<rightharpoonup> callback list"
  delivered :: "(callback \<times> event_data) list"

text \<open>\<^verbatim>\<open>this.events[evt]\<close>\<close>

definition events_get :: "'a xobject_scheme \<Rightarrow> string \<Rightarrow> js_value" where
  "events_get x evt =
     (case events x evt of Some cbs \<Rightarrow> Listeners cbs | None \<Rightarrow> object_prototype evt)"

text \<open>
  \<^verbatim>\<open>addEventListener(evt, callback, wtf)\<close>: \<^verbatim>\<open>this.events[evt].push(callback)\<close>.
  Only an array has \<^verbatim>\<open>push\<close>; on \<^verbatim>\<open>undefined\<close>, a function or the prototype
  object the call is a TypeError.
\<close>

definition addEventListener :: "string \<Rightarrow> callback \<Rightarrow> 'a xobject_scheme \<Rightarrow> 'a xobject_scheme outcome" where
  "addEventListener evt cb x =
     (case events_get x evt of
        Listeners cbs \<Rightarrow> Returned (x\<lparr>events := (events x)(evt \<mapsto> cbs @ [cb])\<rparr>)
      | _ \<Rightarrow> Threw TypeError x)"

text \<open>
  \<^verbatim>\<open>emitEvent(evt, data)\<close>: the loop
  \<^verbatim>\<open>for (i = 0; i < this.events[evt].length; i++) this.events[evt][i].call(this, data)\<close>.
  On an array of listeners it calls each in turn (\<open>call_listeners\<close>). Reading
  \<^verbatim>\<open>length\<close> of \<^verbatim>\<open>undefined\<close> is a TypeError. A function has a numeric
  \<^verbatim>\<open>length\<close> and no element \<^verbatim>\<open>0\<close>: with length \<open>0\<close> the loop body never runs,
  otherwise \<^verbatim>\<open>undefined.call\<close> is a TypeError. The prototype object has no
  \<^verbatim>\<open>length\<close>, and \<^verbatim>\<open>0 < undefined\<close> is false.
\<close>

fun call_listeners :: "callback list \<Rightarrow> event_data \<Rightarrow> 'a xobject_scheme \<Rightarrow> 'a xobject_scheme" where
  "call_listeners [] d x = x"
| "call_listeners (cb # cbs) d x = call_listeners cbs d (x\<lparr>delivered := delivered x @ [(cb, d)]\<rparr>)"

definition emitEvent :: "string \<Rightarrow> event_data \<Rightarrow> 'a xobject_scheme \<Rightarrow> 'a xobject_scheme outcome" where
  "emitEvent evt d x =
     (case events_get x evt of
        Listeners cbs \<Rightarrow> Returned (call_listeners cbs d x)
      | Undefined \<Rightarrow> Threw TypeError x
      | Function n \<Rightarrow> (if 0 < n then Threw TypeError x else Returned x)
      | PlainObject \<Rightarrow> Returned x)"

text \<open>\<^verbatim>\<open>declareEvent(evt)\<close>: \<^verbatim>\<open>this.events[evt] = []\<close>\<close>

definition declareEvent :: "string \<Rightarrow> 'a xobject_scheme \<Rightarrow> 'a xobject_scheme" where
  "declareEvent evt x = x\<lparr>events := (events x)(evt \<mapsto> [])\<rparr>"

text \<open>The constructor \<^verbatim>\<open>XObject()\<close>: \<^verbatim>\<open>this.events = {}\<close>.\<close>

definition XObject :: xobject where
  "XObject = \<lparr>events = Map.empty, delivered = []\<rparr>"

subsection \<open>Tracks and the choice of a source URI\<close>

text \<open>
  A track of the page's JSON payload. \<open>ident\<close> stands for the identity of the JavaScript
  object (\<^verbatim>\<open>indexOf\<close> compares objects by identity); \<open>track_sources\<close> is the object
  \<^verbatim>\<open>track.sources\<close>, its properties in the order \<^verbatim>\<open>for ... in\<close> visits them (for
  MIME-type names, the order of declaration). The title, icon and settings of a track are
  used by the view only.
\<close>

record track =
  ident :: nat
  track_sources :: "(string \<times> string) list"

text \<open>
  \<^verbatim>\<open>audio.canPlayType(codec)\<close> answers with a string, empty when the type cannot be
  played; the condition \<^verbatim>\<open>codec in track.sources && supported\<close> tests it for
  truthiness.
\<close>

definition truthy :: "string \<Rightarrow> bool" where
  "truthy s = (s \<noteq> [])"

definition preferred :: "string list" where
  "preferred = [''audio/mp4'', ''audio/ogg'', ''audio/mp3'']"

text \<open>
  Both loops of \<^verbatim>\<open>selectTrackUri\<close> have the same body: return
  \<^verbatim>\<open>track.sources[codec]\<close> at the first codec that is in \<^verbatim>\<open>track.sources\<close> and
  supported. \<open>None\<close> means the loop ended without returning.
\<close>

fun first_supported :: "(string \<Rightarrow> string) \<Rightarrow> (string \<times> string) list \<Rightarrow> string list \<Rightarrow> string option" where
  "first_supported canPlayType srcs [] = None"
| "first_supported canPlayType srcs (codec # rest) =
     (let supported = canPlayType codec in
      case map_of srcs codec of
        Some uri \<Rightarrow> if truthy supported then Some uri else first_supported canPlayType srcs rest
      | None \<Rightarrow> first_supported canPlayType srcs rest)"

text \<open>The result is the URI returned, \<open>None\<close> for \<^verbatim>\<open>undefined\<close>.\<close>

definition selectTrackUri :: "(string \<Rightarrow> string) \<Rightarrow> track \<Rightarrow> string option" where
  "selectTrackUri canPlayType t =
     (case first_supported canPlayType (track_sources t) preferred of
        Some uri \<Rightarrow> Some uri
      | None \<Rightarrow>
          (case first_supported canPlayType (track_sources t) (map fst (track_sources t)) of
             Some uri \<Rightarrow> Some uri
           | None \<Rightarrow> map_of (track_sources t) ''audio/wav''))"

subsection \<open>The host's audio graph\<close>

text \<open>
  The nodes that \<^verbatim>\<open>createGain\<close> and \<^verbatim>\<open>createBufferSource\<close> make are host objects
  that the engine holds by reference and mutates through the reference. They live in a
  store, \<open>audio_graph\<close>; a reference is the position of the node in the store, and a new
  node goes to the end of it. A gain node starts with the gain \<open>1\<close> of the Web Audio API
  and unconnected; a source node starts with no buffer, unconnected and not started.
\<close>

type_synonym buffer = nat

datatype handler = EngineOnEnded

record gain_node =
  gain_value :: real
  to_destination :: bool

record source_node =
  source_buffer :: "buffer option"
  source_output :: "nat option"
  start_when :: "real option"
  stop_when :: "real option"
  onended :: "handler option"

record audio_graph =
  gain_nodes :: "gain_node list"
  source_nodes :: "source_node list"

definition update_at :: "nat \<Rightarrow> ('a \<Rightarrow> 'a) \<Rightarrow> 'a list \<Rightarrow> 'a list" where
  "update_at h f xs = (if h < length xs then xs[h := f (xs ! h)] else xs)"

definition createGain :: "audio_graph \<Rightarrow> nat \<times> audio_graph" where
  "createGain g =
     (length (gain_nodes g),
      g\<lparr>gain_nodes := gain_nodes g @ [\<lparr>gain_value = 1, to_destination = False\<rparr>]\<rparr>)"

definition createBufferSource :: "audio_graph \<Rightarrow> nat \<times> audio_graph" where
  "createBufferSource g =
     (length (source_nodes g),
      g\<lparr>source_nodes := source_nodes g @
         [\<lparr>source_buffer = None, source_output = None, start_when = None,
           stop_when = None, onended = None\<rparr>]\<rparr>)"

text \<open>\<^verbatim>\<open>gain.gain.value = v\<close>\<close>

definition set_gain_value :: "nat \<Rightarrow> real \<Rightarrow> audio_graph \<Rightarrow> audio_graph" where
  "set_gain_value h v g = g\<lparr>gain_nodes := update_at h (\<lambda>n. n\<lparr>gain_value := v\<rparr>) (gain_nodes g)\<rparr>"

text \<open>\<^verbatim>\<open>gain.connect(this.ctx.destination)\<close>\<close>

definition connect_destination :: "nat \<Rightarrow> audio_graph \<Rightarrow> audio_graph" where
  "connect_destination h g =
     g\<lparr>gain_nodes := update_at h (\<lambda>n. n\<lparr>to_destination := True\<rparr>) (gain_nodes g)\<rparr>"

text \<open>\<^verbatim>\<open>source.buffer = b\<close>, where \<open>b\<close> is \<open>None\<close> when \<^verbatim>\<open>this.buffers[i]\<close> is undefined\<close>

definition set_buffer :: "nat \<Rightarrow> buffer option \<Rightarrow> audio_graph \<Rightarrow> audio_graph" where
  "set_buffer h b g = g\<lparr>source_nodes := update_at h (\<lambda>n. n\<lparr>source_buffer := b\<rparr>) (source_nodes g)\<rparr>"

text \<open>\<^verbatim>\<open>source.connect(gain)\<close>\<close>

definition connect_source :: "nat \<Rightarrow> nat \<Rightarrow> audio_graph \<Rightarrow> audio_graph" where
  "connect_source h gain g =
     g\<lparr>source_nodes := update_at h (\<lambda>n. n\<lparr>source_output := Some gain\<rparr>) (source_nodes g)\<rparr>"

text \<open>\<^verbatim>\<open>source.start(t)\<close> and \<^verbatim>\<open>source.stop(t)\<close>\<close>

definition start_source :: "nat \<Rightarrow> real \<Rightarrow> audio_graph \<Rightarrow> audio_graph" where
  "start_source h t g = g\<lparr>source_nodes := update_at h (\<lambda>n. n\<lparr>start_when := Some t\<rparr>) (source_nodes g)\<rparr>"

definition stop_source :: "nat \<Rightarrow> real \<Rightarrow> audio_graph \<Rightarrow> audio_graph" where
  "stop_source h t g = g\<lparr>source_nodes := update_at h (\<lambda>n. n\<lparr>stop_when := Some t\<rparr>) (source_nodes g)\<rparr>"

text \<open>\<^verbatim>\<open>source.onended = f\<close>\<close>

definition set_onended :: "nat \<Rightarrow> handler \<Rightarrow> audio_graph \<Rightarrow> audio_graph" where
  "set_onended h f g = g\<lparr>source_nodes := update_at h (\<lambda>n. n\<lparr>onended := Some f\<rparr>) (source_nodes g)\<rparr>"

subsection \<open>PlayerEngine\<close>

text \<open>
  The fields of the engine. \<open>ctx\<close> is \<open>None\<close> when the host has neither
  \<^verbatim>\<open>AudioContext\<close> nor \<^verbatim>\<open>webkitAudioContext\<close> (the constructor then leaves
  \<^verbatim>\<open>this.ctx\<close> undefined). \<open>buffers\<close> is the array \<^verbatim>\<open>this.buffers\<close>, written at the
  index \<^verbatim>\<open>indexOf\<close> gives (which may be \<open>-1\<close>). \<open>playbackCtx\<close> is \<open>None\<close> until the
  first \<^verbatim>\<open>play()\<close> assigns it.
\<close>

datatype audio_context = AudioContext | WebkitAudioContext

record playback_entry =
  gainNode :: nat
  sourceNode :: nat

record engine = xobject +
  ctx :: "audio_context option"
  buffers :: "int \<rightharpoonup> buffer"
  tracks :: "track list"
  currentTrack :: int
  playing :: bool
  playbackCtx :: "playback_entry option list option"
  graph :: audio_graph
  requests :: "(track \<times> string option) list"

text \<open>
  \<^verbatim>\<open>new PlayerEngine(tracks)\<close>; the two flags say which audio context constructors the
  host defines.
\<close>

definition PlayerEngine :: "bool \<Rightarrow> bool \<Rightarrow> track list \<Rightarrow> engine" where
  "PlayerEngine hasAudioContext hasWebkitAudioContext trks =
     declareEvent ''trackChanged''
       (declareEvent ''trackLoaded''
          \<lparr>events = events XObject, delivered = delivered XObject,
           ctx = (if hasAudioContext then Some AudioContext
                  else if hasWebkitAudioContext then Some WebkitAudioContext
                  else None),
           buffers = Map.empty, tracks = trks, currentTrack = 0, playing = False,
           playbackCtx = None, graph = \<lparr>gain_nodes = [], source_nodes = []\<rparr>,
           requests = []\<rparr>)"

subsubsection \<open>Loading\<close>

text \<open>
  \<^verbatim>\<open>loadTrackFromUri(track, uri)\<close> sends a request to the host and changes no field of
  the engine; the request is recorded in \<open>requests\<close>.
\<close>

definition loadTrackFromUri :: "track \<Rightarrow> string option \<Rightarrow> engine \<Rightarrow> engine outcome" where
  "loadTrackFromUri t uri e = Returned (e\<lparr>requests := requests e @ [(t, uri)]\<rparr>)"

text \<open>\<^verbatim>\<open>trackDecodedCallback(track, buffer)\<close>\<close>

definition trackDecodedCallback :: "track \<Rightarrow> buffer \<Rightarrow> engine \<Rightarrow> engine outcome" where
  "trackDecodedCallback t b e =
     (let index = indexOf (tracks e) t in
      emitEvent ''trackLoaded'' EmptyObject (e\<lparr>buffers := (buffers e)(index \<mapsto> b)\<rparr>))"

text \<open>
  \<^verbatim>\<open>trackLoadedCallback(track, evt)\<close> hands the response to
  \<^verbatim>\<open>this.ctx.decodeAudioData\<close>, a TypeError when \<^verbatim>\<open>this.ctx\<close> is undefined. The host
  calls \<^verbatim>\<open>trackDecodedCallback\<close> later if it can decode the response; \<open>decoded\<close> is the
  buffer it makes, \<open>None\<close> when it makes none. The call of the second callback is placed
  right after the first, which changes no field in between.
\<close>

definition trackLoadedCallback :: "track \<Rightarrow> buffer option \<Rightarrow> engine \<Rightarrow> engine outcome" where
  "trackLoadedCallback t decoded e =
     (case ctx e of
        None \<Rightarrow> Threw TypeError e
      | Some c \<Rightarrow> (case decoded of None \<Rightarrow> Returned e | Some b \<Rightarrow> trackDecodedCallback t b e))"

text \<open>
  \<^verbatim>\<open>loadSingleTrack(i)\<close>; beyond the array \<^verbatim>\<open>this.tracks[i]\<close> is undefined and
  \<^verbatim>\<open>selectTrackUri\<close> fails reading \<^verbatim>\<open>track.sources\<close>.
\<close>

definition loadSingleTrack :: "(string \<Rightarrow> string) \<Rightarrow> nat \<Rightarrow> engine \<Rightarrow> engine outcome" where
  "loadSingleTrack canPlayType i e =
     (if i < length (tracks e) then
        (let t = tracks e ! i; uri = selectTrackUri canPlayType t in loadTrackFromUri t uri e)
      else Threw TypeError e)"

function loadTracks_loop :: "(string \<Rightarrow> string) \<Rightarrow> nat \<Rightarrow> engine \<Rightarrow> engine outcome" where
  "loadTracks_loop canPlayType i e =
     (if i < length (tracks e) then
        (case loadSingleTrack canPlayType i e of
           Returned e' \<Rightarrow> loadTracks_loop canPlayType (Suc i) e'
         | Threw err e' \<Rightarrow> Threw err e')
      else Returned e)"
  by pat_completeness auto
termination
  by (relation "measure (\<lambda>(canPlayType, i, e). length (tracks e) - i)")
     (auto simp: loadSingleTrack_def loadTrackFromUri_def Let_def split: if_splits)

declare loadTracks_loop.simps [simp del]

definition loadTracks :: "(string \<Rightarrow> string) \<Rightarrow> engine \<Rightarrow> engine outcome" where
  "loadTracks canPlayType e = loadTracks_loop canPlayType 0 e"

subsubsection \<open>Playback\<close>

text \<open>The body of the loop of \<^verbatim>\<open>play()\<close>, for the index \<open>i\<close>.\<close>

definition play_body :: "nat \<Rightarrow> engine \<Rightarrow> engine outcome" where
  "play_body i e =
     (let gainValue = (if int i = currentTrack e then 1 else 0) in
      case ctx e of
        None \<Rightarrow> Threw TypeError e
      | Some c \<Rightarrow>
          (let (gain, g1) = createGain (graph e);
               g2 = set_gain_value gain gainValue g1;
               g3 = connect_destination gain g2;
               (source, g4) = createBufferSource g3;
               g5 = set_buffer source (buffers e (int i)) g4;
               g6 = connect_source source gain g5;
               g7 = start_source source 0 g6;
               e1 = e\<lparr>graph := g7\<rparr>
           in case playbackCtx e1 of
                None \<Rightarrow> Threw TypeError e1
              | Some pc \<Rightarrow>
                  Returned (e1\<lparr>playbackCtx :=
                    Some (js_set pc i \<lparr>gainNode = gain, sourceNode = source\<rparr>)\<rparr>)))"

function play_loop :: "nat \<Rightarrow> engine \<Rightarrow> engine outcome" where
  "play_loop i e =
     (if i < length (tracks e) then
        (case play_body i e of
           Returned e' \<Rightarrow> play_loop (Suc i) e'
         | Threw err e' \<Rightarrow> Threw err e')
      else Returned e)"
  by pat_completeness auto
termination
  by (relation "measure (\<lambda>(i, e). length (tracks e) - i)")
     (auto simp: play_body_def Let_def split: if_splits option.splits prod.splits)

declare play_loop.simps [simp del]

text \<open>
  \<^verbatim>\<open>play()\<close>. After the loop, \<^verbatim>\<open>this.playbackCtx[0].sourceNode.onended\<close> is
  assigned; with no track the array is empty and reading \<^verbatim>\<open>sourceNode\<close> of
  \<^verbatim>\<open>undefined\<close> is a TypeError.
\<close>

definition play :: "engine \<Rightarrow> engine outcome" where
  "play e =
     (if playing e then Returned e
      else
        (case play_loop 0 (e\<lparr>playing := True, playbackCtx := Some []\<rparr>) of
           Threw err e1 \<Rightarrow> Threw err e1
         | Returned e1 \<Rightarrow>
             (case playbackCtx e1 of
                None \<Rightarrow> Threw TypeError e1
              | Some pc \<Rightarrow>
                  (case js_get pc 0 of
                     None \<Rightarrow> Threw TypeError e1
                   | Some en \<Rightarrow>
                       Returned (e1\<lparr>graph := set_onended (sourceNode en) EngineOnEnded (graph e1)\<rparr>)))))"

text \<open>
  \<^verbatim>\<open>stop()\<close>. The loop visits the entries of \<^verbatim>\<open>this.playbackCtx\<close> in order and
  stops the source of each.
\<close>

fun stop_sources :: "playback_entry option list \<Rightarrow> engine \<Rightarrow> engine outcome" where
  "stop_sources [] e = Returned e"
| "stop_sources (en # ens) e =
     (case en of
        None \<Rightarrow> Threw TypeError e
      | Some p \<Rightarrow> stop_sources ens (e\<lparr>graph := stop_source (sourceNode p) 0 (graph e)\<rparr>))"

definition stop :: "engine \<Rightarrow> engine outcome" where
  "stop e =
     (if \<not> playing e then Returned e
      else
        (case playbackCtx e of
           None \<Rightarrow> Threw TypeError e
         | Some pc \<Rightarrow>
             (case stop_sources pc e of
                Threw err e1 \<Rightarrow> Threw err e1
              | Returned e1 \<Rightarrow> Returned (e1\<lparr>playbackCtx := Some []\<rparr>))))"

text \<open>\<^verbatim>\<open>onEnded()\<close>\<close>

definition onEnded :: "engine \<Rightarrow> engine outcome" where
  "onEnded e = Returned (e\<lparr>playing := False\<rparr>)"

text \<open>
  \<^verbatim>\<open>setCurrentTrack(num)\<close>. The condition
  \<^verbatim>\<open>this.playing && this.playbackCtx && num != old\<close> holds for an empty array too (an
  array is truthy).
\<close>

definition setCurrentTrack :: "int \<Rightarrow> engine \<Rightarrow> engine outcome" where
  "setCurrentTrack num e =
     (let old = currentTrack e;
          e1 = e\<lparr>currentTrack := num\<rparr>
      in case playbackCtx e1 of
           Some pc \<Rightarrow>
             (if playing e1 \<and> num \<noteq> old then
                (case js_get pc old of
                   None \<Rightarrow> Threw TypeError e1
                 | Some en_old \<Rightarrow>
                     (let e2 = e1\<lparr>graph := set_gain_value (gainNode en_old) 0 (graph e1)\<rparr> in
                      case js_get pc num of
                        None \<Rightarrow> Threw TypeError e2
                      | Some en_num \<Rightarrow>
                          emitEvent ''trackChanged'' (Num num)
                            (e2\<lparr>graph := set_gain_value (gainNode en_num) 1 (graph e2)\<rparr>)))
              else emitEvent ''trackChanged'' (Num num) e1)
         | None \<Rightarrow> emitEvent ''trackChanged'' (Num num) e1)"

subsection \<open>Runs of the engine\<close>

text \<open>
  What happens to an engine after its construction: the view calls \<^verbatim>\<open>play\<close>,
  \<^verbatim>\<open>stop\<close> and \<^verbatim>\<open>setCurrentTrack\<close> and registers listeners, the page calls
  \<^verbatim>\<open>loadTracks\<close>, and the host calls back: when a response has arrived
  (\<open>TrackLoaded\<close>) and when a source node has ended (\<open>Ended\<close>, which runs
  \<^verbatim>\<open>onEnded\<close> if that node carries the handler). An exception ends the call and
  leaves the engine as it is at the throw.
\<close>

datatype action =
    Play
  | Stop
  | SetCurrentTrack int
  | LoadTracks
  | TrackLoaded track "buffer option"
  | Ended nat
  | AddEventListener string callback

fun perform :: "(string \<Rightarrow> string) \<Rightarrow> action \<Rightarrow> engine \<Rightarrow> engine outcome" where
  "perform canPlayType Play e = play e"
| "perform canPlayType Stop e = stop e"
| "perform canPlayType (SetCurrentTrack num) e = setCurrentTrack num e"
| "perform canPlayType LoadTracks e = loadTracks canPlayType e"
| "perform canPlayType (TrackLoaded t decoded) e = trackLoadedCallback t decoded e"
| "perform canPlayType (Ended h) e =
     (if h < length (source_nodes (graph e)) \<and> onended (source_nodes (graph e) ! h) = Some EngineOnEnded
      then onEnded e else Returned e)"
| "perform canPlayType (AddEventListener evt cb) e = addEventListener evt cb e"

fun run :: "(string \<Rightarrow> string) \<Rightarrow> action list \<Rightarrow> engine \<Rightarrow> engine" where
  "run canPlayType [] e = e"
| "run canPlayType (a # as) e = run canPlayType as (after (perform canPlayType a e))"

text \<open>The view selects a track by its position in the track list.\<close>

fun selects_in_range :: "nat \<Rightarrow> action \<Rightarrow> bool" where
  "selects_in_range n (SetCurrentTrack num) = (0 \<le> num \<and> num < int n)"
| "selects_in_range n a = True"

subsection \<open>Notions of the specification\<close>

text \<open>
  A source of a track is usable on a host when the track declares the MIME type and the
  host reports the type as playable.
\<close>

definition usable :: "(string \<Rightarrow> string) \<Rightarrow> track \<Rightarrow> string \<Rightarrow> bool" where
  "usable canPlayType t codec =
     (map_of (track_sources t) codec \<noteq> None \<and> truthy (canPlayType codec))"

text \<open>
  An event is declared on an object when the listener table has an own entry for its
  name, which only \<open>declareEvent\<close> creates.
\<close>

definition declared :: "'a xobject_scheme \<Rightarrow> string \<Rightarrow> bool" where
  "declared x evt = (events x evt \<noteq> None)"

text \<open>
  The switch of gains in \<^verbatim>\<open>setCurrentTrack(num)\<close> fails when the engine is playing,
  \<open>num\<close> is not the current track, and the session has no entry at the current track
  or none at \<open>num\<close>.
\<close>

definition switch_fails :: "int \<Rightarrow> engine \<Rightarrow> bool" where
  "switch_fails num e =
     (playing e \<and> num \<noteq> currentTrack e
      \<and> (case playbackCtx e of
            None \<Rightarrow> False
          | Some pc \<Rightarrow> js_get pc (currentTrack e) = None \<or> js_get pc num = None))"

subsection \<open>A page with two tracks\<close>

text \<open>
  The scenario of the specification: two tracks, the first with an MP4 source and the
  second with an Ogg source, on a host that plays both types. The page constructs the
  engine, starts loading, and the view registers its listener (called \<open>7\<close> here) for
  \<^verbatim>\<open>trackChanged\<close>; \<open>loaded2\<close> is the engine once both tracks are loaded and
  decoded, \<open>playing2\<close> the engine after \<^verbatim>\<open>play()\<close> and \<open>stopped2\<close> the engine
  after \<^verbatim>\<open>play()\<close> and \<^verbatim>\<open>stop()\<close>, before the host has reported the end of any
  source. \<open>track_wav\<close> declares three formats, WAV first.
\<close>

definition host1 :: "string \<Rightarrow> string" where
  "host1 c = (if c = ''audio/mp4'' \<or> c = ''audio/ogg'' then ''maybe'' else [])"

definition trackA :: track where
  "trackA = \<lparr>ident = 0, track_sources = [(''audio/mp4'', ''a.mp4'')]\<rparr>"

definition trackB :: track where
  "trackB = \<lparr>ident = 1, track_sources = [(''audio/ogg'', ''b.ogg'')]\<rparr>"

definition track_wav :: track where
  "track_wav = \<lparr>ident = 2, track_sources =
     [(''audio/wav'', ''c.wav''), (''audio/ogg'', ''c.ogg''), (''audio/mp4'', ''c.mp4'')]\<rparr>"

definition page_load :: "action list" where
  "page_load =
     [LoadTracks, AddEventListener ''trackChanged'' 7,
      TrackLoaded trackA (Some 10), TrackLoaded trackB (Some 11)]"

definition loaded2 :: engine where
  "loaded2 = run host1 page_load (PlayerEngine True False [trackA, trackB])"

definition playing2 :: engine where
  "playing2 = run host1 (page_load @ [Play]) (PlayerEngine True False [trackA, trackB])"

definition stopped2 :: engine where
  "stopped2 = run host1 (page_load @ [Play, Stop]) (PlayerEngine True False [trackA, trackB])"

lemmas model_defs =
  PlayerEngine_def XObject_def declareEvent_def addEventListener_def emitEvent_def
  events_get_def object_prototype_def loadTracks_def loadSingleTrack_def loadTrackFromUri_def
  trackLoadedCallback_def trackDecodedCallback_def indexOf_def selectTrackUri_def
  preferred_def truthy_def play_def play_body_def stop_def onEnded_def setCurrentTrack_def
  createGain_def createBufferSource_def set_gain_value_def connect_destination_def
  set_buffer_def connect_source_def start_source_def stop_source_def set_onended_def
  update_at_def js_get_def js_set_def Let_def play_loop.simps loadTracks_loop.simps

lemmas page_defs =
  host1_def trackA_def trackB_def track_wav_def page_load_def loaded2_def playing2_def stopped2_def

subsection \<open>What play() is specified to build\<close>

text \<open>
  The specification of \<^verbatim>\<open>play()\<close>, track by track: for the track at position \<open>k\<close>
  a gain node wired to the destination, with gain \<open>1\<close> at the current track and \<open>0\<close>
  elsewhere; a source node bound to the track's buffer, connected to that gain node and
  started at time \<open>0\<close>; and the pair of the two as entry \<open>k\<close> of the session. \<open>bg\<close>
  and \<open>bs\<close> are the numbers of gain and source nodes the graph held before, so that the
  nodes of track \<open>k\<close> are the new nodes \<open>bg + k\<close> and \<open>bs + k\<close>. The source of track
  \<open>0\<close> carries the handler for \<^verbatim>\<open>ended\<close>.
\<close>

definition built_gain :: "engine \<Rightarrow> nat \<Rightarrow> gain_node" where
  "built_gain e k = \<lparr>gain_value = (if int k = currentTrack e then 1 else 0), to_destination = True\<rparr>"

definition built_source :: "engine \<Rightarrow> nat \<Rightarrow> nat \<Rightarrow> source_node" where
  "built_source e bg k =
     \<lparr>source_buffer = buffers e (int k), source_output = Some (bg + k), start_when = Some 0,
      stop_when = None, onended = None\<rparr>"

definition built_entry :: "nat \<Rightarrow> nat \<Rightarrow> nat \<Rightarrow> playback_entry option" where
  "built_entry bg bs k = Some \<lparr>gainNode = bg + k, sourceNode = bs + k\<rparr>"

definition built_graph :: "engine \<Rightarrow> audio_graph" where
  "built_graph e =
     \<lparr>gain_nodes = gain_nodes (graph e) @ map (built_gain e) [0..<length (tracks e)],
      source_nodes = source_nodes (graph e) @
        map (\<lambda>k. (built_source e (length (gain_nodes (graph e))) k)
                    \<lparr>onended := (if k = 0 then Some EngineOnEnded else None)\<rparr>)
          [0..<length (tracks e)]\<rparr>"

definition built_session :: "engine \<Rightarrow> playback_entry option list" where
  "built_session e =
     map (built_entry (length (gain_nodes (graph e))) (length (source_nodes (graph e))))
       [0..<length (tracks e)]"

subsection \<open>The gains of a session\<close>

text \<open>
  \<open>session_gains\<close> reads, for each entry of \<open>playbackCtx\<close> in order, the value of the
  gain node the entry refers to (\<open>None\<close> where there is no such node). The invariant of
  the specification, as it words it: at most one of these gains is \<open>1\<close> and every other
  one is \<open>0\<close>. \<open>current_only\<close> is the sharper form: the gain is \<open>1\<close> exactly at the
  position \<open>currentTrack\<close>.
\<close>

definition session_gains :: "engine \<Rightarrow> real option list" where
  "session_gains e =
     (case playbackCtx e of
        None \<Rightarrow> []
      | Some pc \<Rightarrow>
          map (\<lambda>en. case en of
                      None \<Rightarrow> None
                    | Some p \<Rightarrow>
                        if gainNode p < length (gain_nodes (graph e))
                        then Some (gain_value (gain_nodes (graph e) ! gainNode p))
                        else None) pc)"

definition at_most_one_active :: "engine \<Rightarrow> bool" where
  "at_most_one_active e =
     (length (filter (\<lambda>g. g = Some 1) (session_gains e)) \<le> 1
      \<and> list_all (\<lambda>g. g = Some 1 \<or> g = Some 0) (session_gains e))"

definition current_only :: "engine \<Rightarrow> bool" where
  "current_only e =
     (session_gains e =
        map (\<lambda>k. Some (if int k = currentTrack e then 1 else 0)) [0..<length (session_gains e)])"

subsection \<open>Invariants of the runs\<close>

text \<open>
  A full session holds, for every track, the entry that \<^verbatim>\<open>play()\<close> built for it, and
  the nodes the entries refer to exist.
\<close>

definition full_session :: "engine \<Rightarrow> playback_entry option list \<Rightarrow> nat \<Rightarrow> nat \<Rightarrow> bool" where
  "full_session e pc bg bs =
     (pc = map (built_entry bg bs) [0..<length (tracks e)]
      \<and> tracks e \<noteq> []
      \<and> bg + length (tracks e) \<le> length (gain_nodes (graph e))
      \<and> bs + length (tracks e) \<le> length (source_nodes (graph e)))"

text \<open>
  In every run: buffers are decoded only through an audio context, and while \<open>playing\<close>
  is set the session is either empty or full.
\<close>

definition session_inv :: "engine \<Rightarrow> bool" where
  "session_inv e =
     ((ctx e = None \<longrightarrow> buffers e = Map.empty)
      \<and> (playing e \<longrightarrow>
           (\<exists>pc. playbackCtx e = Some pc \<and> (pc = [] \<or> (\<exists>bg bs. full_session e pc bg bs)))))"

text \<open>
  In the runs that select tracks by their position: the current track is a position of the
  track list, and while \<open>playing\<close> is set the gains of a full session are \<open>1\<close> at
  the current track and \<open>0\<close> elsewhere.
\<close>

definition gains_inv :: "engine \<Rightarrow> bool" where
  "gains_inv e =
     ((tracks e \<noteq> [] \<longrightarrow> 0 \<le> currentTrack e \<and> currentTrack e < int (length (tracks e)))
      \<and> (playing e \<longrightarrow>
           (\<forall>pc bg bs. playbackCtx e = Some pc \<and> full_session e pc bg bs \<longrightarrow>
              (\<forall>k<length (tracks e).
                 gain_value (gain_nodes (graph e) ! (bg + k)) = (if int k = currentTrack e then 1 else 0)))))"

section \<open>Properties\<close>

subsection \<open>Choice of the source URI\<close>

lemma first_supported_find:
  "first_supported h srcs cs =
     (case find (\<lambda>c. map_of srcs c \<noteq> None \<and> truthy (h c)) cs of
        None \<Rightarrow> None
      | Some c \<Rightarrow> map_of srcs c)"
  by (induction cs) (auto split: option.splits)

lemma find_keys_None:
  assumes "find (usable h t) (map fst (track_sources t)) = None"
  shows "\<not> usable h t c"
proof
  assume u: "usable h t c"
  then have "map_of (track_sources t) c \<noteq> None"
    by (simp add: usable_def)
  then have "c \<in> set (map fst (track_sources t))"
    by (simp add: map_of_eq_None_iff)
  with assms u show False
    by (auto simp: find_None_iff)
qed

lemma selectTrackUri_find:
  "selectTrackUri h t =
     (case find (usable h t) preferred of
        Some c \<Rightarrow> map_of (track_sources t) c
      | None \<Rightarrow>
          (case find (usable h t) (map fst (track_sources t)) of
             Some c \<Rightarrow> map_of (track_sources t) c
           | None \<Rightarrow> map_of (track_sources t) ''audio/wav''))"
proof -
  have P: "usable h t = (\<lambda>c. map_of (track_sources t) c \<noteq> None \<and> truthy (h c))"
    by (simp add: usable_def fun_eq_iff)
  show ?thesis
    unfolding selectTrackUri_def first_supported_find P
    by (auto split: option.splits dest: find_Some_iff[THEN iffD1])
qed

text \<open>
  C2. \<open>selectTrackUri\<close> returns the URI of the first type in the order MP4, Ogg, MP3
  that the track declares and the host plays, whenever there is one (so in particular when
  there are several). Failing that it returns the URI of the first declared type that the
  host plays, and failing that the declared WAV source. Hence, whenever some declared
  source is playable, the URI returned is that of a declared type the host plays.
\<close>

theorem selectTrackUri_prefers:
  "(find (usable h t) [''audio/mp4'', ''audio/ogg'', ''audio/mp3''] = Some c
      \<longrightarrow> selectTrackUri h t = map_of (track_sources t) c)
   \<and> (find (usable h t) [''audio/mp4'', ''audio/ogg'', ''audio/mp3''] = None
      \<and> find (usable h t) (map fst (track_sources t)) = Some c
      \<longrightarrow> selectTrackUri h t = map_of (track_sources t) c)
   \<and> (find (usable h t) [''audio/mp4'', ''audio/ogg'', ''audio/mp3''] = None
      \<and> find (usable h t) (map fst (track_sources t)) = None
      \<longrightarrow> selectTrackUri h t = map_of (track_sources t) ''audio/wav'')
   \<and> ((\<exists>c'. usable h t c')
      \<longrightarrow> (\<exists>c'. usable h t c' \<and> selectTrackUri h t = map_of (track_sources t) c'))"
proof -
  have pref: "preferred = [''audio/mp4'', ''audio/ogg'', ''audio/mp3'']"
    by (simp add: preferred_def)
  note sel = selectTrackUri_find[of h t, unfolded pref]
  have last: "\<exists>c'. usable h t c' \<and> selectTrackUri h t = map_of (track_sources t) c'"
    if some: "usable h t c0" for c0
  proof (cases "find (usable h t) [''audio/mp4'', ''audio/ogg'', ''audio/mp3'']")
    case (Some a)
    then have "usable h t a" by (auto split: if_splits)
    with Some show ?thesis unfolding sel by auto
  next
    case None
    note none_preferred = this
    show ?thesis
    proof (cases "find (usable h t) (map fst (track_sources t))")
      case (Some a)
      then have "usable h t a" by (auto simp: find_Some_iff)
      with Some none_preferred show ?thesis unfolding sel by auto
    next
      case None
      from find_keys_None[OF this] some show ?thesis
        by blast
    qed
  qed
  have a: "find (usable h t) [''audio/mp4'', ''audio/ogg'', ''audio/mp3''] = Some c
      \<longrightarrow> selectTrackUri h t = map_of (track_sources t) c"
    unfolding sel by simp
  have b: "find (usable h t) [''audio/mp4'', ''audio/ogg'', ''audio/mp3''] = None
      \<and> find (usable h t) (map fst (track_sources t)) = Some c
      \<longrightarrow> selectTrackUri h t = map_of (track_sources t) c"
    unfolding sel by simp
  have c: "find (usable h t) [''audio/mp4'', ''audio/ogg'', ''audio/mp3''] = None
      \<and> find (usable h t) (map fst (track_sources t)) = None
      \<longrightarrow> selectTrackUri h t = map_of (track_sources t) ''audio/wav''"
    unfolding sel by simp
  from a b c last show ?thesis by blast
qed

theorem selectTrackUri_prefers_witness:
  "find (usable host1 track_wav) [''audio/mp4'', ''audio/ogg'', ''audio/mp3''] = Some ''audio/mp4''
   \<and> usable host1 track_wav ''audio/ogg''
   \<and> \<not> usable host1 track_wav ''audio/wav''
   \<and> selectTrackUri host1 track_wav = Some ''c.mp4''"
  using selectTrackUri_prefers [of host1 track_wav "''audio/mp4''"]
  by (simp add: usable_def host1_def track_wav_def truthy_def)

subsection \<open>The event base class\<close>

lemma call_listeners_delivered:
  "call_listeners cbs d x = x\<lparr>delivered := delivered x @ map (\<lambda>cb. (cb, d)) cbs\<rparr>"
  by (induction cbs arbitrary: x) simp_all

lemma emitEvent_declared:
  "events x evt = Some cbs \<Longrightarrow>
     emitEvent evt d x = Returned (x\<lparr>delivered := delivered x @ map (\<lambda>cb. (cb, d)) cbs\<rparr>)"
  by (simp add: emitEvent_def events_get_def call_listeners_delivered)

text \<open>
  C10. As stated the claim fails: an undeclared event whose name is an inherited property of
  the listener table with nothing to iterate (\<^verbatim>\<open>toString\<close>, \<^verbatim>\<open>valueOf\<close>,
  \<^verbatim>\<open>toLocaleString\<close>, \<^verbatim>\<open>__proto__\<close>) is emitted without an error, calling no
  listener. What holds: \<open>addEventListener\<close> succeeds only on a declared event; on an
  object where \<^verbatim>\<open>__proto__\<close> is not declared, \<open>emitEvent\<close> on an undeclared event
  succeeds exactly for those four names and then changes nothing; and on a declared event
  \<open>addEventListener\<close> appends the callback to the event's list while \<open>emitEvent\<close>
  calls the listeners of the list once each, in the order of the list.
\<close>

theorem events_need_declaration:
  "(returned (addEventListener evt cb x) \<longrightarrow> declared x evt)
   \<and> (\<not> declared x evt \<and> \<not> declared x ''__proto__'' \<longrightarrow>
        returned (emitEvent evt d x) =
          (evt \<in> {''toString'', ''valueOf'', ''toLocaleString'', ''__proto__''})
        \<and> after (emitEvent evt d x) = x)
   \<and> (events x evt = Some cbs \<longrightarrow>
        addEventListener evt cb x = Returned (x\<lparr>events := (events x)(evt \<mapsto> cbs @ [cb])\<rparr>)
        \<and> emitEvent evt d x =
            Returned (x\<lparr>delivered := delivered x @ map (\<lambda>l. (l, d)) cbs\<rparr>))"
proof (intro conjI impI)
  assume "returned (addEventListener evt cb x)"
  then show "declared x evt"
    by (auto simp: addEventListener_def events_get_def declared_def object_prototype_def
        split: option.splits js_value.splits if_splits)
next
  assume "\<not> declared x evt \<and> \<not> declared x ''__proto__''"
  then have none: "events x evt = None"
    by (simp add: declared_def)
  show "returned (emitEvent evt d x) =
      (evt \<in> {''toString'', ''valueOf'', ''toLocaleString'', ''__proto__''})"
    using none by (simp add: emitEvent_def events_get_def object_prototype_def)
  show "after (emitEvent evt d x) = x"
    using none by (simp add: emitEvent_def events_get_def object_prototype_def)
next
  assume "events x evt = Some cbs"
  then show "addEventListener evt cb x = Returned (x\<lparr>events := (events x)(evt \<mapsto> cbs @ [cb])\<rparr>)"
    by (simp add: addEventListener_def events_get_def)
next
  assume "events x evt = Some cbs"
  then show "emitEvent evt d x = Returned (x\<lparr>delivered := delivered x @ map (\<lambda>l. (l, d)) cbs\<rparr>)"
    by (rule emitEvent_declared)
qed

theorem events_need_declaration_witness:
  "events (after (addEventListener ''trackChanged'' 8
      (after (addEventListener ''trackChanged'' 7 (declareEvent ''trackChanged'' XObject)))))
      ''trackChanged'' = Some [7, 8]
   \<and> delivered (after (emitEvent ''trackChanged'' (Num 1)
      (after (addEventListener ''trackChanged'' 8
        (after (addEventListener ''trackChanged'' 7 (declareEvent ''trackChanged'' XObject)))))))
      = [(7, Num 1), (8, Num 1)]
   \<and> \<not> declared XObject ''trackLoaded''
   \<and> \<not> declared XObject ''__proto__''
   \<and> \<not> returned (emitEvent ''trackLoaded'' EmptyObject XObject)
   \<and> \<not> returned (addEventListener ''trackLoaded'' 7 XObject)"
proof -
  let ?x0 = "declareEvent ''trackChanged'' XObject"
  let ?x1 = "after (addEventListener ''trackChanged'' 7 ?x0)"
  let ?x2 = "after (addEventListener ''trackChanged'' 8 ?x1)"
  have e0: "events ?x0 ''trackChanged'' = Some []"
    by (simp add: declareEvent_def XObject_def)
  have e1: "events ?x1 ''trackChanged'' = Some [7]"
    using events_need_declaration [of "''trackChanged''" 7 ?x0 "Num 1" "[]"] e0 by simp
  have e2: "events ?x2 ''trackChanged'' = Some [7, 8]"
    using events_need_declaration [of "''trackChanged''" 8 ?x1 "Num 1" "[7]"] e1 by simp
  have d2: "delivered ?x2 = []"
    by (simp add: declareEvent_def XObject_def addEventListener_def events_get_def)
  have em: "delivered (after (emitEvent ''trackChanged'' (Num 1) ?x2)) = [(7, Num 1), (8, Num 1)]"
    using events_need_declaration [of "''trackChanged''" 9 ?x2 "Num 1" "[7, 8]"] e2 d2 by simp
  have u: "\<not> declared XObject ''trackLoaded''" "\<not> declared XObject ''__proto__''"
    by (simp_all add: declared_def XObject_def)
  have n1: "\<not> returned (emitEvent ''trackLoaded'' EmptyObject XObject)"
    using events_need_declaration [of "''trackLoaded''" 7 XObject EmptyObject "[]"] u by simp
  have n2: "\<not> returned (addEventListener ''trackLoaded'' 7 XObject)"
    using events_need_declaration [of "''trackLoaded''" 7 XObject EmptyObject "[]"] u by blast
  from e2 em u n1 n2 show ?thesis by blast
qed

theorem emitEvent_undeclared_counterexample:
  "\<not> declared XObject ''toString''
   \<and> emitEvent ''toString'' (Num 0) XObject = Returned XObject"
  by (simp add: declared_def XObject_def emitEvent_def events_get_def object_prototype_def)

subsection \<open>The end of playback\<close>

text \<open>
  C8. \<open>onEnded\<close> returns normally, sets \<open>playing\<close> to false and leaves every other
  field as it is: the session handles in \<open>playbackCtx\<close>, the audio graph with the gain
  of every gain node and the stop time of every source node, \<open>currentTrack\<close> and the
  buffer table.
\<close>

theorem onEnded_only_clears_playing:
  "onEnded e = Returned (e\<lparr>playing := False\<rparr>)
   \<and> playing (after (onEnded e)) = False
   \<and> playbackCtx (after (onEnded e)) = playbackCtx e
   \<and> graph (after (onEnded e)) = graph e
   \<and> map gain_value (gain_nodes (graph (after (onEnded e)))) = map gain_value (gain_nodes (graph e))
   \<and> map stop_when (source_nodes (graph (after (onEnded e)))) = map stop_when (source_nodes (graph e))
   \<and> currentTrack (after (onEnded e)) = currentTrack e
   \<and> buffers (after (onEnded e)) = buffers e
   \<and> tracks (after (onEnded e)) = tracks e
   \<and> ctx (after (onEnded e)) = ctx e
   \<and> events (after (onEnded e)) = events e
   \<and> delivered (after (onEnded e)) = delivered e
   \<and> requests (after (onEnded e)) = requests e"
  by (simp add: onEnded_def)

subsection \<open>The session that play() builds\<close>

lemma update_at_last [simp]: "update_at (length xs) f (xs @ [a]) = xs @ [f a]"
  by (simp add: update_at_def)

lemma js_set_end [simp]: "js_set xs (length xs) v = xs @ [Some v]"
  by (simp add: js_set_def)

lemma play_body_fresh:
  assumes "ctx e = Some c" and "playbackCtx e = Some pc"
    and "length pc \<le> length (gain_nodes (graph e))"
    and "length pc \<le> length (source_nodes (graph e))"
  shows "play_body (length pc) e =
     Returned (e\<lparr>graph :=
                   \<lparr>gain_nodes = gain_nodes (graph e) @ [built_gain e (length pc)],
                    source_nodes = source_nodes (graph e) @
                      [built_source e (length (gain_nodes (graph e)) - length pc) (length pc)]\<rparr>,
                 playbackCtx := Some (pc @
                   [built_entry (length (gain_nodes (graph e)) - length pc)
                      (length (source_nodes (graph e)) - length pc) (length pc)])\<rparr>)"
  using assms
  by (simp add: play_body_def createGain_def createBufferSource_def set_gain_value_def
      connect_destination_def set_buffer_def connect_source_def start_source_def
      built_gain_def built_source_def built_entry_def Let_def)

lemma play_body_closed:
  assumes "ctx e = Some c" and "playbackCtx e = Some pc" and "length pc = i"
    and "length (gain_nodes (graph e)) = bg + i"
    and "length (source_nodes (graph e)) = bs + i"
  shows "play_body i e =
     Returned (e\<lparr>graph := \<lparr>gain_nodes = gain_nodes (graph e) @ [built_gain e i],
                            source_nodes = source_nodes (graph e) @ [built_source e bg i]\<rparr>,
                 playbackCtx := Some (pc @ [built_entry bg bs i])\<rparr>)"
  using play_body_fresh[OF assms(1,2)] assms(3-5) by simp

lemma play_loop_closed:
  assumes "ctx e = Some c" and "playbackCtx e = Some pc" and "length pc = i"
    and "length (gain_nodes (graph e)) = bg + i"
    and "length (source_nodes (graph e)) = bs + i"
    and "i \<le> length (tracks e)"
  shows "play_loop i e =
     Returned (e\<lparr>graph :=
                   \<lparr>gain_nodes = gain_nodes (graph e) @ map (built_gain e) [i..<length (tracks e)],
                    source_nodes = source_nodes (graph e) @ map (built_source e bg) [i..<length (tracks e)]\<rparr>,
                 playbackCtx := Some (pc @ map (built_entry bg bs) [i..<length (tracks e)])\<rparr>)"
  using assms
proof (induction i e arbitrary: pc rule: play_loop.induct)
  case (1 i e)
  show ?case
  proof (cases "i < length (tracks e)")
    case False
    with "1.prems" have i: "[i..<length (tracks e)] = []" by simp
    have "play_loop i e = Returned e"
      using False by (simp add: play_loop.simps[of i e])
    moreover have "e\<lparr>graph := \<lparr>gain_nodes = gain_nodes (graph e),
        source_nodes = source_nodes (graph e)\<rparr>, playbackCtx := Some pc\<rparr> = e"
      using "1.prems"(2) by simp
    ultimately show ?thesis
      unfolding i by simp
  next
    case True
    let ?e' = "e\<lparr>graph := \<lparr>gain_nodes = gain_nodes (graph e) @ [built_gain e i],
                            source_nodes = source_nodes (graph e) @ [built_source e bg i]\<rparr>,
                 playbackCtx := Some (pc @ [built_entry bg bs i])\<rparr>"
    have body: "play_body i e = Returned ?e'"
      using "1.prems" by (intro play_body_closed) simp_all
    have ih: "play_loop (Suc i) ?e' =
      Returned (?e'\<lparr>graph :=
                   \<lparr>gain_nodes = gain_nodes (graph ?e') @ map (built_gain ?e') [Suc i..<length (tracks ?e')],
                    source_nodes = source_nodes (graph ?e') @ map (built_source ?e' bg) [Suc i..<length (tracks ?e')]\<rparr>,
                 playbackCtx := Some ((pc @ [built_entry bg bs i]) @ map (built_entry bg bs) [Suc i..<length (tracks ?e')])\<rparr>)"
      using "1.prems" True
      by (intro "1.IH"[OF True body]) simp_all
    have same: "built_gain ?e' = built_gain e" "built_source ?e' bg = built_source e bg"
      by (simp_all add: built_gain_def built_source_def fun_eq_iff)
    show ?thesis
      using True body ih
      by (simp add: play_loop.simps[of i e] same upt_conv_Cons)
  qed
qed


lemma play_loop_no_context:
  assumes "ctx e = None" and "i < length (tracks e)"
  shows "play_loop i e = Threw TypeError e"
  using assms by (simp add: play_loop.simps[of i e] play_body_def)

lemma play_playing: "playing e \<Longrightarrow> play e = Returned e"
  by (simp add: play_def)

lemma play_throws:
  assumes "\<not> playing e" and "ctx e = None \<or> tracks e = []"
  shows "play e = Threw TypeError (e\<lparr>playing := True, playbackCtx := Some []\<rparr>)"
proof (cases "tracks e = []")
  case True
  then have "play_loop 0 (e\<lparr>playing := True, playbackCtx := Some []\<rparr>)
      = Returned (e\<lparr>playing := True, playbackCtx := Some []\<rparr>)"
    by (simp add: play_loop.simps[of 0])
  with assms(1) show ?thesis
    by (simp add: play_def js_get_def)
next
  case False
  with assms(2) have "ctx e = None" by simp
  with False have "play_loop 0 (e\<lparr>playing := True, playbackCtx := Some []\<rparr>)
      = Threw TypeError (e\<lparr>playing := True, playbackCtx := Some []\<rparr>)"
    by (intro play_loop_no_context) simp_all
  with assms(1) show ?thesis
    by (simp add: play_def)
qed

lemma update_at_first_new:
  "0 < n \<Longrightarrow> update_at (length xs) f (xs @ map g [0..<n])
     = xs @ map (\<lambda>k. if k = 0 then f (g k) else g k) [0..<n]"
  by (simp add: update_at_def upt_conv_Cons list_update_append del: upt_Suc)

lemma play_builds:
  assumes "\<not> playing e" and "ctx e = Some c" and "tracks e \<noteq> []"
  shows "play e = Returned (e\<lparr>playing := True, playbackCtx := Some (built_session e),
                              graph := built_graph e\<rparr>)"
proof -
  let ?e1 = "e\<lparr>playing := True, playbackCtx := Some []\<rparr>"
  let ?n = "length (tracks e)"
  let ?bg = "length (gain_nodes (graph e))"
  let ?bs = "length (source_nodes (graph e))"
  have loop: "play_loop 0 ?e1 =
     Returned (?e1\<lparr>graph :=
                   \<lparr>gain_nodes = gain_nodes (graph ?e1) @ map (built_gain ?e1) [0..<length (tracks ?e1)],
                    source_nodes = source_nodes (graph ?e1) @ map (built_source ?e1 ?bg) [0..<length (tracks ?e1)]\<rparr>,
                 playbackCtx := Some ([] @ map (built_entry ?bg ?bs) [0..<length (tracks ?e1)])\<rparr>)"
    using assms(2) by (intro play_loop_closed[where c = c]) simp_all
  have same: "built_gain ?e1 = built_gain e" "built_source ?e1 ?bg = built_source e ?bg"
    by (simp_all add: built_gain_def built_source_def fun_eq_iff)
  have n: "0 < ?n" using assms(3) by simp
  have first: "js_get (map (built_entry ?bg ?bs) [0..<?n]) 0 = Some \<lparr>gainNode = ?bg, sourceNode = ?bs\<rparr>"
    using n by (simp add: js_get_def built_entry_def nth_map_upt)
  have src: "update_at ?bs (\<lambda>n. n\<lparr>onended := Some EngineOnEnded\<rparr>)
        (source_nodes (graph e) @ map (built_source e ?bg) [0..<?n])
      = source_nodes (graph e) @
        map (\<lambda>k. (built_source e ?bg k)\<lparr>onended := (if k = 0 then Some EngineOnEnded else None)\<rparr>) [0..<?n]"
    using n by (simp add: update_at_first_new built_source_def cong: map_cong)
  show ?thesis
    using assms(1) first src
    by (simp add: play_def loop same set_onended_def built_graph_def built_session_def)
qed

subsection \<open>What each operation can change\<close>

lemma emitEvent_shape: "\<exists>dl. after (emitEvent evt d x) = x\<lparr>delivered := dl\<rparr>"
proof (cases "events_get x evt")
  case (Listeners cbs)
  then have "after (emitEvent evt d x) = x\<lparr>delivered := delivered x @ map (\<lambda>cb. (cb, d)) cbs\<rparr>"
    by (simp add: emitEvent_def call_listeners_delivered)
  then show ?thesis by blast
next
  case Undefined
  then have "after (emitEvent evt d x) = x\<lparr>delivered := delivered x\<rparr>"
    by (simp add: emitEvent_def)
  then show ?thesis by blast
next
  case (Function n)
  then have "after (emitEvent evt d x) = x\<lparr>delivered := delivered x\<rparr>"
    by (simp add: emitEvent_def)
  then show ?thesis by blast
next
  case PlainObject
  then have "after (emitEvent evt d x) = x\<lparr>delivered := delivered x\<rparr>"
    by (simp add: emitEvent_def)
  then show ?thesis by blast
qed

lemma addEventListener_shape: "\<exists>ev. after (addEventListener evt cb x) = x\<lparr>events := ev\<rparr>"
proof (cases "events_get x evt")
  case (Listeners cbs)
  then show ?thesis by (simp add: addEventListener_def) blast
next
  case Undefined
  then have "after (addEventListener evt cb x) = x\<lparr>events := events x\<rparr>"
    by (simp add: addEventListener_def)
  then show ?thesis by blast
next
  case (Function n)
  then have "after (addEventListener evt cb x) = x\<lparr>events := events x\<rparr>"
    by (simp add: addEventListener_def)
  then show ?thesis by blast
next
  case PlainObject
  then have "after (addEventListener evt cb x) = x\<lparr>events := events x\<rparr>"
    by (simp add: addEventListener_def)
  then show ?thesis by blast
qed

lemma loadTracks_loop_shape: "\<exists>rq. after (loadTracks_loop h i e) = e\<lparr>requests := rq\<rparr>"
proof (induction h i e rule: loadTracks_loop.induct)
  case (1 h i e)
  show ?case
  proof (cases "i < length (tracks e)")
    case False
    then have "after (loadTracks_loop h i e) = e\<lparr>requests := requests e\<rparr>"
      by (simp add: loadTracks_loop.simps[of h i e])
    then show ?thesis by blast
  next
    case True
    let ?e' = "e\<lparr>requests := requests e @ [(tracks e ! i, selectTrackUri h (tracks e ! i))]\<rparr>"
    have single: "loadSingleTrack h i e = Returned ?e'"
      using True by (simp add: loadSingleTrack_def loadTrackFromUri_def Let_def)
    from "1.IH"[OF True single] obtain rq where
      "after (loadTracks_loop h (Suc i) ?e') = ?e'\<lparr>requests := rq\<rparr>" by blast
    then have "after (loadTracks_loop h i e) = e\<lparr>requests := rq\<rparr>"
      using True single by (simp add: loadTracks_loop.simps[of h i e])
    then show ?thesis by blast
  qed
qed

lemma loadTracks_shape: "\<exists>rq. after (loadTracks h e) = e\<lparr>requests := rq\<rparr>"
  unfolding loadTracks_def by (rule loadTracks_loop_shape)

lemma trackLoadedCallback_shape:
  "\<exists>b dl. after (trackLoadedCallback t decoded e) = e\<lparr>buffers := b, delivered := dl\<rparr>
     \<and> (ctx e = None \<longrightarrow> b = buffers e)"
proof (cases "ctx e = None \<or> decoded = None")
  case True
  then have "after (trackLoadedCallback t decoded e) = e\<lparr>buffers := buffers e, delivered := delivered e\<rparr>"
    by (auto simp: trackLoadedCallback_def split: option.splits)
  then show ?thesis by blast
next
  case False
  then obtain c b where cb: "ctx e = Some c" "decoded = Some b" by auto
  let ?e1 = "e\<lparr>buffers := (buffers e)(indexOf (tracks e) t \<mapsto> b)\<rparr>"
  obtain dl where "after (emitEvent ''trackLoaded'' EmptyObject ?e1) = ?e1\<lparr>delivered := dl\<rparr>"
    using emitEvent_shape by blast
  then have "after (trackLoadedCallback t decoded e)
      = e\<lparr>buffers := (buffers e)(indexOf (tracks e) t \<mapsto> b), delivered := dl\<rparr>"
    using cb by (simp add: trackLoadedCallback_def trackDecodedCallback_def)
  with cb show ?thesis by auto
qed

lemma stop_sources_shape:
  "\<exists>ss. after (stop_sources pc e) = e\<lparr>graph := (graph e)\<lparr>source_nodes := ss\<rparr>\<rparr>
     \<and> length ss = length (source_nodes (graph e))"
proof (induction pc arbitrary: e)
  case Nil
  have "after (stop_sources [] e) = e\<lparr>graph := (graph e)\<lparr>source_nodes := source_nodes (graph e)\<rparr>\<rparr>"
    by simp
  then show ?case by blast
next
  case (Cons en pc)
  show ?case
  proof (cases en)
    case None
    then have "after (stop_sources (en # pc) e)
        = e\<lparr>graph := (graph e)\<lparr>source_nodes := source_nodes (graph e)\<rparr>\<rparr>"
      by simp
    then show ?thesis by blast
  next
    case (Some p)
    let ?e' = "e\<lparr>graph := stop_source (sourceNode p) 0 (graph e)\<rparr>"
    from Cons.IH[of ?e'] obtain ss where
      ss: "after (stop_sources pc ?e') = ?e'\<lparr>graph := (graph ?e')\<lparr>source_nodes := ss\<rparr>\<rparr>"
        "length ss = length (source_nodes (graph ?e'))" by blast
    have "after (stop_sources (en # pc) e) = e\<lparr>graph := (graph e)\<lparr>source_nodes := ss\<rparr>\<rparr>"
      using Some ss(1) by (simp add: stop_source_def)
    moreover have "length ss = length (source_nodes (graph e))"
      using ss(2) by (simp add: stop_source_def update_at_def)
    ultimately show ?thesis by blast
  qed
qed

lemma stop_sources_all:
  "list_all (\<lambda>en. en \<noteq> None) pc \<Longrightarrow> returned (stop_sources pc e)"
  by (induction pc arbitrary: e) (auto split: option.splits)

lemma stop_shape:
  "\<exists>ss pc'. after (stop e) = e\<lparr>graph := (graph e)\<lparr>source_nodes := ss\<rparr>, playbackCtx := pc'\<rparr>
     \<and> length ss = length (source_nodes (graph e))
     \<and> (pc' = playbackCtx e \<or> pc' = Some [])"
proof (cases "playing e \<and> playbackCtx e \<noteq> None")
  case False
  then have "after (stop e) = e\<lparr>graph := (graph e)\<lparr>source_nodes := source_nodes (graph e)\<rparr>,
      playbackCtx := playbackCtx e\<rparr>"
    by (auto simp: stop_def)
  then show ?thesis by blast
next
  case True
  then obtain pc where pc: "playbackCtx e = Some pc" by auto
  obtain ss where ss: "after (stop_sources pc e) = e\<lparr>graph := (graph e)\<lparr>source_nodes := ss\<rparr>\<rparr>"
    "length ss = length (source_nodes (graph e))"
    using stop_sources_shape by blast
  show ?thesis
  proof (cases "stop_sources pc e")
    case (Returned e1)
    with ss(1) have "after (stop e) = e\<lparr>graph := (graph e)\<lparr>source_nodes := ss\<rparr>, playbackCtx := Some []\<rparr>"
      using True pc by (simp add: stop_def)
    with ss(2) show ?thesis by blast
  next
    case (Threw err e1)
    with ss(1) have "after (stop e) = e\<lparr>graph := (graph e)\<lparr>source_nodes := ss\<rparr>, playbackCtx := playbackCtx e\<rparr>"
      using True pc by (simp add: stop_def)
    with ss(2) show ?thesis by blast
  qed
qed

lemma setCurrentTrack_plain:
  assumes "\<not> (playing e \<and> playbackCtx e \<noteq> None \<and> num \<noteq> currentTrack e)"
  shows "setCurrentTrack num e = emitEvent ''trackChanged'' (Num num) (e\<lparr>currentTrack := num\<rparr>)"
  using assms by (auto simp: setCurrentTrack_def Let_def split: option.splits)

lemma setCurrentTrack_switch:
  assumes "playing e" and "playbackCtx e = Some pc" and "num \<noteq> currentTrack e"
    and "js_get pc (currentTrack e) = Some en_old" and "js_get pc num = Some en_num"
  shows "setCurrentTrack num e =
     emitEvent ''trackChanged'' (Num num)
       (e\<lparr>currentTrack := num,
          graph := set_gain_value (gainNode en_num) 1 (set_gain_value (gainNode en_old) 0 (graph e))\<rparr>)"
  using assms by (simp add: setCurrentTrack_def Let_def)

lemma setCurrentTrack_throws:
  assumes "playing e" and "playbackCtx e = Some pc" and "num \<noteq> currentTrack e"
    and "js_get pc (currentTrack e) = None"
  shows "setCurrentTrack num e = Threw TypeError (e\<lparr>currentTrack := num\<rparr>)"
  using assms by (simp add: setCurrentTrack_def Let_def)

lemma setCurrentTrack_shape:
  "\<exists>gs dl. after (setCurrentTrack num e)
       = e\<lparr>currentTrack := num, graph := (graph e)\<lparr>gain_nodes := gs\<rparr>, delivered := dl\<rparr>
     \<and> length gs = length (gain_nodes (graph e))"
proof -
  have emit: "\<exists>gs dl. after (emitEvent ''trackChanged'' (Num num) (e\<lparr>currentTrack := num, graph := g\<rparr>))
       = e\<lparr>currentTrack := num, graph := (graph e)\<lparr>gain_nodes := gs\<rparr>, delivered := dl\<rparr>
     \<and> length gs = length (gain_nodes (graph e))"
    if "g = (graph e)\<lparr>gain_nodes := gs0\<rparr>" and "length gs0 = length (gain_nodes (graph e))" for g gs0
  proof -
    obtain dl where "after (emitEvent ''trackChanged'' (Num num) (e\<lparr>currentTrack := num, graph := g\<rparr>))
       = e\<lparr>currentTrack := num, graph := g, delivered := dl\<rparr>"
      using emitEvent_shape[of "''trackChanged''" "Num num" "e\<lparr>currentTrack := num, graph := g\<rparr>"]
      by auto
    with that show ?thesis by blast
  qed
  have idg: "graph e = (graph e)\<lparr>gain_nodes := gain_nodes (graph e)\<rparr>" by simp
  have thrown: "\<exists>gs dl. e\<lparr>currentTrack := num, graph := g\<rparr>
       = e\<lparr>currentTrack := num, graph := (graph e)\<lparr>gain_nodes := gs\<rparr>, delivered := dl\<rparr>
     \<and> length gs = length (gain_nodes (graph e))"
    if "g = (graph e)\<lparr>gain_nodes := gs0\<rparr>" and "length gs0 = length (gain_nodes (graph e))" for g gs0
  proof -
    have "e\<lparr>currentTrack := num, graph := g\<rparr>
       = e\<lparr>currentTrack := num, graph := (graph e)\<lparr>gain_nodes := gs0\<rparr>, delivered := delivered e\<rparr>"
      using that by simp
    with that show ?thesis by blast
  qed
  show ?thesis
  proof (cases "playing e \<and> playbackCtx e \<noteq> None \<and> num \<noteq> currentTrack e")
    case False
    have "e\<lparr>currentTrack := num\<rparr> = e\<lparr>currentTrack := num, graph := graph e\<rparr>" by simp
    then show ?thesis
      using setCurrentTrack_plain[OF False] emit[OF idg] by simp
  next
    case True
    then obtain pc where pc: "playbackCtx e = Some pc" by auto
    show ?thesis
    proof (cases "js_get pc (currentTrack e)")
      case None
      have "e\<lparr>currentTrack := num\<rparr> = e\<lparr>currentTrack := num, graph := graph e\<rparr>" by simp
      then show ?thesis
        using setCurrentTrack_throws[of e pc num] True pc None thrown[OF idg] by simp
    next
      case (Some en_old)
      let ?g1 = "set_gain_value (gainNode en_old) 0 (graph e)"
      have g1: "?g1 = (graph e)\<lparr>gain_nodes := update_at (gainNode en_old) (\<lambda>n. n\<lparr>gain_value := 0\<rparr>) (gain_nodes (graph e))\<rparr>"
        by (simp add: set_gain_value_def)
      have l1: "length (update_at (gainNode en_old) (\<lambda>n. n\<lparr>gain_value := 0\<rparr>) (gain_nodes (graph e)))
          = length (gain_nodes (graph e))"
        by (simp add: update_at_def)
      show ?thesis
      proof (cases "js_get pc num")
        case None
        then have "setCurrentTrack num e = Threw TypeError (e\<lparr>currentTrack := num, graph := ?g1\<rparr>)"
          using True pc Some by (simp add: setCurrentTrack_def Let_def)
        then show ?thesis
          using thrown[OF g1 l1] by simp
      next
        case (Some en_num)
        let ?g2 = "set_gain_value (gainNode en_num) 1 ?g1"
        have g2: "?g2 = (graph e)\<lparr>gain_nodes := update_at (gainNode en_num) (\<lambda>n. n\<lparr>gain_value := 1\<rparr>)
            (update_at (gainNode en_old) (\<lambda>n. n\<lparr>gain_value := 0\<rparr>) (gain_nodes (graph e)))\<rparr>"
          by (simp add: set_gain_value_def)
        have l2: "length (update_at (gainNode en_num) (\<lambda>n. n\<lparr>gain_value := 1\<rparr>)
            (update_at (gainNode en_old) (\<lambda>n. n\<lparr>gain_value := 0\<rparr>) (gain_nodes (graph e))))
          = length (gain_nodes (graph e))"
          by (simp add: update_at_def)
        show ?thesis
          using setCurrentTrack_switch[of e pc num en_old en_num] True pc \<open>js_get pc (currentTrack e) = Some en_old\<close> Some
            emit[OF g2 l2] by simp
      qed
    qed
  qed
qed

subsection \<open>The invariants hold in every run\<close>

lemma full_session_frame:
  assumes "tracks e' = tracks e"
    and "length (gain_nodes (graph e')) = length (gain_nodes (graph e))"
    and "length (source_nodes (graph e')) = length (source_nodes (graph e))"
  shows "full_session e' pc bg bs = full_session e pc bg bs"
  using assms by (simp add: full_session_def)

lemma full_session_not_empty: "\<not> full_session e [] bg bs"
  by (auto simp: full_session_def)

lemma full_session_unique:
  assumes "full_session e pc bg bs" and "full_session e pc bg' bs'"
  shows "bg' = bg \<and> bs' = bs"
proof -
  from assms have n: "0 < length (tracks e)"
    and eq: "map (built_entry bg bs) [0..<length (tracks e)] = map (built_entry bg' bs') [0..<length (tracks e)]"
    by (auto simp: full_session_def)
  from eq have "map (built_entry bg bs) [0..<length (tracks e)] ! 0
      = map (built_entry bg' bs') [0..<length (tracks e)] ! 0"
    by (rule arg_cong)
  with n show ?thesis
    by (simp add: built_entry_def nth_map_upt del: upt_Suc)
qed

lemma session_inv_frame:
  assumes "session_inv e"
    and "ctx e' = None \<longrightarrow> buffers e' = Map.empty"
    and "tracks e' = tracks e"
    and "length (gain_nodes (graph e')) = length (gain_nodes (graph e))"
    and "length (source_nodes (graph e')) = length (source_nodes (graph e))"
    and "playing e' \<longrightarrow> playing e \<and> (playbackCtx e' = playbackCtx e \<or> playbackCtx e' = Some [])"
  shows "session_inv e'"
  using assms(1,2,6) full_session_frame[OF assms(3,4,5)]
  by (auto simp: session_inv_def)

lemma gains_invD:
  assumes "gains_inv e" and "playing e" and "playbackCtx e = Some pc"
    and "full_session e pc bg bs" and "k < length (tracks e)"
  shows "gain_value (gain_nodes (graph e) ! (bg + k)) = (if int k = currentTrack e then 1 else 0)"
proof -
  from assms(1) have "playing e \<longrightarrow> (\<forall>pc bg bs. playbackCtx e = Some pc \<and> full_session e pc bg bs \<longrightarrow>
      (\<forall>k<length (tracks e).
         gain_value (gain_nodes (graph e) ! (bg + k)) = (if int k = currentTrack e then 1 else 0)))"
    unfolding gains_inv_def by (rule conjunct2)
  from this[rule_format, of pc bg bs k] assms(2,3,4,5) show ?thesis by simp
qed

lemma gains_invI:
  assumes "tracks e \<noteq> [] \<Longrightarrow> 0 \<le> currentTrack e \<and> currentTrack e < int (length (tracks e))"
    and "\<And>pc bg bs k. playing e \<Longrightarrow> playbackCtx e = Some pc \<Longrightarrow> full_session e pc bg bs \<Longrightarrow>
      k < length (tracks e) \<Longrightarrow>
      gain_value (gain_nodes (graph e) ! (bg + k)) = (if int k = currentTrack e then 1 else 0)"
  shows "gains_inv e"
  unfolding gains_inv_def using assms by blast

lemma gains_inv_range:
  "gains_inv e \<Longrightarrow> tracks e \<noteq> [] \<Longrightarrow> 0 \<le> currentTrack e \<and> currentTrack e < int (length (tracks e))"
  by (simp add: gains_inv_def)

lemma gains_inv_frame:
  assumes "gains_inv e"
    and "tracks e' = tracks e"
    and "currentTrack e' = currentTrack e"
    and "gain_nodes (graph e') = gain_nodes (graph e)"
    and "length (source_nodes (graph e')) = length (source_nodes (graph e))"
    and "playing e' \<longrightarrow> playing e \<and> (playbackCtx e' = playbackCtx e \<or> playbackCtx e' = Some [])"
  shows "gains_inv e'"
proof -
  have fs: "full_session e' pc bg bs = full_session e pc bg bs" for pc bg bs
    using assms(2,4,5) by (simp add: full_session_def)
  have range: "tracks e' \<noteq> [] \<longrightarrow> 0 \<le> currentTrack e' \<and> currentTrack e' < int (length (tracks e'))"
    using assms(1,2,3) by (simp add: gains_inv_def)
  have gains: "gain_value (gain_nodes (graph e') ! (bg + k)) = (if int k = currentTrack e' then 1 else 0)"
    if "playing e'" and "playbackCtx e' = Some pc" and "full_session e' pc bg bs"
      and "k < length (tracks e')" for pc bg bs k
  proof -
    from that(1) assms(6) have p: "playing e"
      and "playbackCtx e' = playbackCtx e \<or> playbackCtx e' = Some []" by auto
    with that(2,3) full_session_not_empty[of e'] have "playbackCtx e = Some pc" by auto
    moreover from that(3) have "full_session e pc bg bs" by (simp add: fs)
    ultimately have "gain_value (gain_nodes (graph e) ! (bg + k)) = (if int k = currentTrack e then 1 else 0)"
      using gains_invD[OF assms(1) p] that(4) assms(2) by simp
    then show ?thesis using assms(3,4) by simp
  qed
  show ?thesis
    using range gains by (intro gains_invI) blast+
qed

lemma session_inv_init: "session_inv (PlayerEngine a w ts)"
  by (simp add: session_inv_def PlayerEngine_def declareEvent_def)

lemma gains_inv_init: "gains_inv (PlayerEngine a w ts)"
  by (auto simp: gains_inv_def PlayerEngine_def declareEvent_def)

lemma tracks_init: "tracks (PlayerEngine a w ts) = ts"
  by (simp add: PlayerEngine_def declareEvent_def)

lemma play_cases:
  obtains (noop) "playing e" "play e = Returned e"
  | (throws) "\<not> playing e" "play e = Threw TypeError (e\<lparr>playing := True, playbackCtx := Some []\<rparr>)"
  | (builds) "\<not> playing e" "tracks e \<noteq> []" "ctx e \<noteq> None"
      "play e = Returned (e\<lparr>playing := True, playbackCtx := Some (built_session e),
                           graph := built_graph e\<rparr>)"
proof (cases "playing e")
  case True
  then show ?thesis using noop play_playing by blast
next
  case False
  show ?thesis
  proof (cases "ctx e = None \<or> tracks e = []")
    case True
    with False show ?thesis using throws play_throws by blast
  next
    case nt: False
    then obtain c where "ctx e = Some c" by auto
    with False nt show ?thesis using builds play_builds[of e c] by auto
  qed
qed

lemma built_full_session:
  assumes "tracks e \<noteq> []"
  shows "full_session (e\<lparr>playing := True, playbackCtx := Some (built_session e), graph := built_graph e\<rparr>)
     (built_session e) (length (gain_nodes (graph e))) (length (source_nodes (graph e)))"
  using assms by (simp add: full_session_def built_session_def built_graph_def)

lemma tracks_perform: "tracks (after (perform h a e)) = tracks e"
proof (cases a)
  case Play
  show ?thesis by (cases e rule: play_cases) (simp_all add: Play)
next
  case Stop
  obtain ss pc' where "after (stop e) = e\<lparr>graph := (graph e)\<lparr>source_nodes := ss\<rparr>, playbackCtx := pc'\<rparr>"
    using stop_shape by blast
  then show ?thesis by (simp add: Stop)
next
  case (SetCurrentTrack num)
  obtain gs dl where "after (setCurrentTrack num e)
       = e\<lparr>currentTrack := num, graph := (graph e)\<lparr>gain_nodes := gs\<rparr>, delivered := dl\<rparr>"
    using setCurrentTrack_shape by blast
  then show ?thesis by (simp add: SetCurrentTrack)
next
  case LoadTracks
  obtain rq where "after (loadTracks h e) = e\<lparr>requests := rq\<rparr>"
    using loadTracks_shape by blast
  then show ?thesis by (simp add: LoadTracks)
next
  case (TrackLoaded t decoded)
  obtain b dl where "after (trackLoadedCallback t decoded e) = e\<lparr>buffers := b, delivered := dl\<rparr>"
    using trackLoadedCallback_shape by blast
  then show ?thesis by (simp add: TrackLoaded)
next
  case (Ended s)
  then show ?thesis by (simp add: onEnded_def)
next
  case (AddEventListener evt cb)
  obtain ev where "after (addEventListener evt cb e) = e\<lparr>events := ev\<rparr>"
    using addEventListener_shape by blast
  then show ?thesis by (simp add: AddEventListener)
qed

lemma session_inv_perform:
  assumes inv: "session_inv e"
  shows "session_inv (after (perform h a e))"
proof (cases a)
  case Play
  show ?thesis
  proof (cases e rule: play_cases)
    case noop
    with inv show ?thesis by (simp add: Play)
  next
    case throws
    with inv show ?thesis by (simp add: Play session_inv_def)
  next
    case builds
    from built_full_session[OF builds(2)] inv builds(3) show ?thesis
      unfolding Play session_inv_def by (auto simp: builds(4))
  qed
next
  case Stop
  obtain ss pc' where "after (stop e) = e\<lparr>graph := (graph e)\<lparr>source_nodes := ss\<rparr>, playbackCtx := pc'\<rparr>"
    and "length ss = length (source_nodes (graph e))"
    and "pc' = playbackCtx e \<or> pc' = Some []"
    using stop_shape by blast
  with inv show ?thesis
    unfolding Stop by (intro session_inv_frame[OF inv]) (auto simp: session_inv_def)
next
  case (SetCurrentTrack num)
  obtain gs dl where "after (setCurrentTrack num e)
       = e\<lparr>currentTrack := num, graph := (graph e)\<lparr>gain_nodes := gs\<rparr>, delivered := dl\<rparr>"
    and "length gs = length (gain_nodes (graph e))"
    using setCurrentTrack_shape by blast
  with inv show ?thesis
    unfolding SetCurrentTrack by (intro session_inv_frame[OF inv]) (auto simp: session_inv_def)
next
  case LoadTracks
  obtain rq where "after (loadTracks h e) = e\<lparr>requests := rq\<rparr>"
    using loadTracks_shape by blast
  with inv show ?thesis
    unfolding LoadTracks by (intro session_inv_frame[OF inv]) (auto simp: session_inv_def)
next
  case (TrackLoaded t decoded)
  obtain b dl where "after (trackLoadedCallback t decoded e) = e\<lparr>buffers := b, delivered := dl\<rparr>"
    and "ctx e = None \<longrightarrow> b = buffers e"
    using trackLoadedCallback_shape by blast
  with inv show ?thesis
    unfolding TrackLoaded by (intro session_inv_frame[OF inv]) (auto simp: session_inv_def)
next
  case (Ended s)
  with inv show ?thesis
    by (intro session_inv_frame[OF inv]) (auto simp: session_inv_def onEnded_def)
next
  case (AddEventListener evt cb)
  obtain ev where "after (addEventListener evt cb e) = e\<lparr>events := ev\<rparr>"
    using addEventListener_shape by blast
  with inv show ?thesis
    unfolding AddEventListener by (intro session_inv_frame[OF inv]) (auto simp: session_inv_def)
qed

lemma built_graph_gain:
  "k < length (tracks e) \<Longrightarrow>
     gain_nodes (built_graph e) ! (length (gain_nodes (graph e)) + k) = built_gain e k"
  by (simp add: built_graph_def nth_append del: upt_Suc)

lemma built_graph_source:
  "k < length (tracks e) \<Longrightarrow>
     source_nodes (built_graph e) ! (length (source_nodes (graph e)) + k)
       = (built_source e (length (gain_nodes (graph e))) k)
           \<lparr>onended := (if k = 0 then Some EngineOnEnded else None)\<rparr>"
  by (simp add: built_graph_def nth_append del: upt_Suc)

lemma js_get_full_session:
  assumes "full_session e pc bg bs" and "0 \<le> i" and "i < int (length (tracks e))"
  shows "js_get pc i = Some \<lparr>gainNode = bg + nat i, sourceNode = bs + nat i\<rparr>"
  using assms by (simp add: full_session_def js_get_def built_entry_def del: upt_Suc)

lemma js_get_empty: "js_get [] i = None"
  by (auto simp: js_get_def)

lemma length_update_at [simp]: "length (update_at h f xs) = length xs"
  by (simp add: update_at_def)

lemma gain_after_switch:
  assumes "a < length xs" and "b < length xs" and "j < length xs"
  shows "gain_value (update_at b (\<lambda>n. n\<lparr>gain_value := 1\<rparr>)
           (update_at a (\<lambda>n. n\<lparr>gain_value := 0\<rparr>) xs) ! j)
         = (if j = b then 1 else if j = a then 0 else gain_value (xs ! j))"
  using assms by (simp add: update_at_def nth_list_update)

lemma gains_inv_perform:
  assumes inv: "session_inv e" and ginv: "gains_inv e"
    and sel: "selects_in_range (length (tracks e)) a"
  shows "gains_inv (after (perform h a e))"
proof (cases a)
  case Play
  show ?thesis
  proof (cases e rule: play_cases)
    case noop
    with ginv show ?thesis by (simp add: Play)
  next
    case throws
    have "gains_inv (e\<lparr>playing := True, playbackCtx := Some []\<rparr>)"
    proof (rule gains_invI)
      show "0 \<le> currentTrack (e\<lparr>playing := True, playbackCtx := Some []\<rparr>)
          \<and> currentTrack (e\<lparr>playing := True, playbackCtx := Some []\<rparr>)
            < int (length (tracks (e\<lparr>playing := True, playbackCtx := Some []\<rparr>)))"
        if "tracks (e\<lparr>playing := True, playbackCtx := Some []\<rparr>) \<noteq> []"
        using that gains_inv_range[OF ginv] by simp
    next
      fix pc bg bs k
      assume "playbackCtx (e\<lparr>playing := True, playbackCtx := Some []\<rparr>) = Some pc"
        and "full_session (e\<lparr>playing := True, playbackCtx := Some []\<rparr>) pc bg bs"
      then have False using full_session_not_empty by auto
      then show "gain_value (gain_nodes (graph (e\<lparr>playing := True, playbackCtx := Some []\<rparr>)) ! (bg + k)) =
        (if int k = currentTrack (e\<lparr>playing := True, playbackCtx := Some []\<rparr>) then 1 else 0)" ..
    qed
    with throws show ?thesis by (simp add: Play)
  next
    case builds
    let ?e' = "e\<lparr>playing := True, playbackCtx := Some (built_session e), graph := built_graph e\<rparr>"
    have "gains_inv ?e'"
    proof (rule gains_invI)
      show "0 \<le> currentTrack ?e' \<and> currentTrack ?e' < int (length (tracks ?e'))"
        if "tracks ?e' \<noteq> []"
        using that gains_inv_range[OF ginv] by simp
    next
      fix pc bg bs k
      assume pc: "playbackCtx ?e' = Some pc" and fs: "full_session ?e' pc bg bs"
        and k: "k < length (tracks ?e')"
      from pc have "pc = built_session e" by simp
      with fs built_full_session[OF builds(2)] have "bg = length (gain_nodes (graph e))"
        using full_session_unique by blast
      then show "gain_value (gain_nodes (graph ?e') ! (bg + k)) = (if int k = currentTrack ?e' then 1 else 0)"
        using k by (simp add: built_graph_gain built_gain_def)
    qed
    with builds show ?thesis by (simp add: Play)
  qed
next
  case Stop
  obtain ss pc' where "after (stop e) = e\<lparr>graph := (graph e)\<lparr>source_nodes := ss\<rparr>, playbackCtx := pc'\<rparr>"
    and "length ss = length (source_nodes (graph e))"
    and "pc' = playbackCtx e \<or> pc' = Some []"
    using stop_shape by blast
  then show ?thesis
    unfolding Stop by (intro gains_inv_frame[OF ginv]) auto
next
  case (SetCurrentTrack num)
  with sel have num: "0 \<le> num" "num < int (length (tracks e))" by simp_all
  then have ne: "tracks e \<noteq> []" by auto
  note range = gains_inv_range[OF ginv ne]
  show ?thesis
  proof (cases "playing e \<and> playbackCtx e \<noteq> None \<and> num \<noteq> currentTrack e")
    case False
    obtain dl where dl: "after (emitEvent ''trackChanged'' (Num num) (e\<lparr>currentTrack := num\<rparr>))
        = e\<lparr>currentTrack := num, delivered := dl\<rparr>"
      using emitEvent_shape[of "''trackChanged''" "Num num" "e\<lparr>currentTrack := num\<rparr>"] by auto
    have "gains_inv (e\<lparr>currentTrack := num, delivered := dl\<rparr>)"
    proof (rule gains_invI)
      show "0 \<le> currentTrack (e\<lparr>currentTrack := num, delivered := dl\<rparr>)
          \<and> currentTrack (e\<lparr>currentTrack := num, delivered := dl\<rparr>)
            < int (length (tracks (e\<lparr>currentTrack := num, delivered := dl\<rparr>)))"
        using num by simp
    next
      fix pc bg bs k
      assume p: "playing (e\<lparr>currentTrack := num, delivered := dl\<rparr>)"
        and pc: "playbackCtx (e\<lparr>currentTrack := num, delivered := dl\<rparr>) = Some pc"
        and fs: "full_session (e\<lparr>currentTrack := num, delivered := dl\<rparr>) pc bg bs"
        and k: "k < length (tracks (e\<lparr>currentTrack := num, delivered := dl\<rparr>))"
      from p pc False have same: "num = currentTrack e" by auto
      from fs have "full_session e pc bg bs" by (simp add: full_session_def)
      from gains_invD[OF ginv _ _ this, of k] p pc k same
      show "gain_value (gain_nodes (graph (e\<lparr>currentTrack := num, delivered := dl\<rparr>)) ! (bg + k)) =
          (if int k = currentTrack (e\<lparr>currentTrack := num, delivered := dl\<rparr>) then 1 else 0)"
        by simp
    qed
    then show ?thesis
      unfolding SetCurrentTrack using setCurrentTrack_plain[OF False] dl by simp
  next
    case True
    then obtain pc where pc: "playbackCtx e = Some pc" and p: "playing e"
      and diff: "num \<noteq> currentTrack e" by auto
    from inv p pc consider "pc = []" | bg bs where "full_session e pc bg bs"
      by (auto simp: session_inv_def)
    then show ?thesis
    proof cases
      case 1
      then have thr: "setCurrentTrack num e = Threw TypeError (e\<lparr>currentTrack := num\<rparr>)"
        using setCurrentTrack_throws[OF p pc diff] by (simp add: js_get_empty)
      have "gains_inv (e\<lparr>currentTrack := num\<rparr>)"
      proof (rule gains_invI)
        show "0 \<le> currentTrack (e\<lparr>currentTrack := num\<rparr>)
            \<and> currentTrack (e\<lparr>currentTrack := num\<rparr>) < int (length (tracks (e\<lparr>currentTrack := num\<rparr>)))"
          using num by simp
      next
        fix pc' bg bs k
        assume "playbackCtx (e\<lparr>currentTrack := num\<rparr>) = Some pc'"
          and "full_session (e\<lparr>currentTrack := num\<rparr>) pc' bg bs"
        with pc 1 have False using full_session_not_empty by auto
        then show "gain_value (gain_nodes (graph (e\<lparr>currentTrack := num\<rparr>)) ! (bg + k)) =
          (if int k = currentTrack (e\<lparr>currentTrack := num\<rparr>) then 1 else 0)" ..
      qed
      with thr show ?thesis by (simp add: SetCurrentTrack)
    next
      case 2
      let ?old = "currentTrack e"
      let ?n = "length (tracks e)"
      let ?gs = "update_at (bg + nat num) (\<lambda>n. n\<lparr>gain_value := 1\<rparr>)
            (update_at (bg + nat ?old) (\<lambda>n. n\<lparr>gain_value := 0\<rparr>) (gain_nodes (graph e)))"
      from 2 have len: "bg + ?n \<le> length (gain_nodes (graph e))"
        by (simp add: full_session_def)
      have old: "js_get pc ?old = Some \<lparr>gainNode = bg + nat ?old, sourceNode = bs + nat ?old\<rparr>"
        using js_get_full_session[OF 2] range by simp
      have new: "js_get pc num = Some \<lparr>gainNode = bg + nat num, sourceNode = bs + nat num\<rparr>"
        using js_get_full_session[OF 2] num by simp
      let ?e1 = "e\<lparr>currentTrack := num, graph := (graph e)\<lparr>gain_nodes := ?gs\<rparr>\<rparr>"
      have sw: "setCurrentTrack num e = emitEvent ''trackChanged'' (Num num) ?e1"
        using setCurrentTrack_switch[OF p pc diff old new] by (simp add: set_gain_value_def)
      obtain dl where dl: "after (emitEvent ''trackChanged'' (Num num) ?e1) = ?e1\<lparr>delivered := dl\<rparr>"
        using emitEvent_shape by blast
      have "gains_inv (?e1\<lparr>delivered := dl\<rparr>)"
      proof (rule gains_invI)
        show "0 \<le> currentTrack (?e1\<lparr>delivered := dl\<rparr>)
            \<and> currentTrack (?e1\<lparr>delivered := dl\<rparr>) < int (length (tracks (?e1\<lparr>delivered := dl\<rparr>)))"
          using num by simp
      next
        fix pc' bg' bs' k
        assume pc': "playbackCtx (?e1\<lparr>delivered := dl\<rparr>) = Some pc'"
          and fs': "full_session (?e1\<lparr>delivered := dl\<rparr>) pc' bg' bs'"
          and k: "k < length (tracks (?e1\<lparr>delivered := dl\<rparr>))"
        from pc' pc have "pc' = pc" by simp
        moreover from fs' have "full_session e pc' bg' bs'"
          by (simp add: full_session_def)
        ultimately have bg': "bg' = bg" using 2 full_session_unique by blast
        from k have k': "k < ?n" by simp
        have before: "gain_value (gain_nodes (graph e) ! (bg + k)) = (if int k = ?old then 1 else 0)"
          using gains_invD[OF ginv p pc 2 k'] .
        have "gain_value (?gs ! (bg + k))
            = (if bg + k = bg + nat num then 1 else if bg + k = bg + nat ?old then 0
               else gain_value (gain_nodes (graph e) ! (bg + k)))"
          using len k' num range by (intro gain_after_switch) linarith+
        with before have "gain_value (?gs ! (bg + k)) = (if int k = num then 1 else 0)"
          using num range by auto
        then show "gain_value (gain_nodes (graph (?e1\<lparr>delivered := dl\<rparr>)) ! (bg' + k)) =
            (if int k = currentTrack (?e1\<lparr>delivered := dl\<rparr>) then 1 else 0)"
          by (simp add: bg')
      qed
      with sw dl show ?thesis by (simp add: SetCurrentTrack)
    qed
  qed
next
  case LoadTracks
  obtain rq where "after (loadTracks h e) = e\<lparr>requests := rq\<rparr>"
    using loadTracks_shape by blast
  then show ?thesis
    unfolding LoadTracks by (intro gains_inv_frame[OF ginv]) auto
next
  case (TrackLoaded t decoded)
  obtain b dl where "after (trackLoadedCallback t decoded e) = e\<lparr>buffers := b, delivered := dl\<rparr>"
    using trackLoadedCallback_shape by blast
  then show ?thesis
    unfolding TrackLoaded by (intro gains_inv_frame[OF ginv]) auto
next
  case (Ended s)
  then show ?thesis
    by (intro gains_inv_frame[OF ginv]) (auto simp: onEnded_def)
next
  case (AddEventListener evt cb)
  obtain ev where "after (addEventListener evt cb e) = e\<lparr>events := ev\<rparr>"
    using addEventListener_shape by blast
  then show ?thesis
    unfolding AddEventListener by (intro gains_inv_frame[OF ginv]) auto
qed

lemma tracks_run: "tracks (run h acts e) = tracks e"
  by (induction acts arbitrary: e) (simp_all add: tracks_perform)

lemma session_inv_run: "session_inv e \<Longrightarrow> session_inv (run h acts e)"
  by (induction acts arbitrary: e) (simp_all add: session_inv_perform)

lemma gains_inv_run:
  assumes "session_inv e" and "gains_inv e"
    and "list_all (selects_in_range (length (tracks e))) acts"
  shows "gains_inv (run h acts e)"
  using assms
proof (induction acts arbitrary: e)
  case Nil
  then show ?case by simp
next
  case (Cons a acts)
  let ?e' = "after (perform h a e)"
  have "session_inv ?e'" using Cons.prems(1) by (rule session_inv_perform)
  moreover have "gains_inv ?e'"
    using Cons.prems by (intro gains_inv_perform) simp_all
  moreover have "list_all (selects_in_range (length (tracks ?e'))) acts"
    using Cons.prems(3) by (simp add: tracks_perform)
  ultimately show ?case
    using Cons.IH[of ?e'] by simp
qed

lemma run_append: "run h (as @ bs) e = run h bs (run h as e)"
  by (induction as arbitrary: e) simp_all

subsection \<open>play()\<close>

lemma returned_after: "returned r \<Longrightarrow> r = Returned (after r)"
  by (cases r) simp_all

lemma playing_after_play: "playing (after (play e))"
  by (cases e rule: play_cases) simp_all

text \<open>
  C6. When \<open>playing\<close> is set, \<^verbatim>\<open>play()\<close> returns at once and the engine is the one
  it was, field by field and node by node. \<^verbatim>\<open>play()\<close> always leaves \<open>playing\<close> set,
  so a second call straight after a first one changes nothing.
\<close>

theorem play_when_playing:
  "(playing e \<longrightarrow> play e = Returned e)
   \<and> play (after (play e)) = Returned (after (play e))"
  using play_playing[of e] play_playing[OF playing_after_play[of e]] by blast

theorem play_when_playing_witness:
  "playing (after (play loaded2))
   \<and> play (after (play loaded2)) = Returned (after (play loaded2))"
  using play_when_playing [of "after (play loaded2)"] playing_after_play [of loaded2]
  by blast

text \<open>
  C9. A call of \<^verbatim>\<open>play()\<close> that builds a session and returns leaves the handler for
  \<^verbatim>\<open>ended\<close> on the source node of track \<open>0\<close> and on the source node of no other
  track, whatever the current track is. The source nodes of the session are the new nodes
  of the graph, one per track.
\<close>

theorem ended_handler_on_first_source:
  assumes "\<not> playing e" and "play e = Returned e'"
  shows "tracks e \<noteq> []
     \<and> playbackCtx e' =
         Some (map (\<lambda>k. Some \<lparr>gainNode = length (gain_nodes (graph e)) + k,
                                sourceNode = length (source_nodes (graph e)) + k\<rparr>)
                 [0..<length (tracks e)])
     \<and> (\<forall>k<length (tracks e).
           onended (source_nodes (graph e') ! (length (source_nodes (graph e)) + k))
             = (if k = 0 then Some EngineOnEnded else None))"
proof (cases e rule: play_cases)
  case noop
  with assms show ?thesis by simp
next
  case throws
  with assms show ?thesis by simp
next
  case builds
  with assms(2) have e': "e' = e\<lparr>playing := True, playbackCtx := Some (built_session e),
      graph := built_graph e\<rparr>" by simp
  have "playbackCtx e' = Some (map (\<lambda>k. Some \<lparr>gainNode = length (gain_nodes (graph e)) + k,
                                sourceNode = length (source_nodes (graph e)) + k\<rparr>)
                 [0..<length (tracks e)])"
    by (simp add: e' built_session_def built_entry_def[abs_def])
  moreover have "onended (source_nodes (graph e') ! (length (source_nodes (graph e)) + k))
             = (if k = 0 then Some EngineOnEnded else None)" if "k < length (tracks e)" for k
    using that by (simp add: e' built_graph_source built_source_def)
  ultimately show ?thesis using builds(2) by blast
qed


theorem ended_handler_on_first_source_witness:
  "\<not> playing (run host1 [SetCurrentTrack 1] loaded2)
   \<and> returned (play (run host1 [SetCurrentTrack 1] loaded2))
   \<and> currentTrack (run host1 [SetCurrentTrack 1] loaded2) = 1
   \<and> onended (source_nodes (graph (after (play (run host1 [SetCurrentTrack 1] loaded2)))) ! 0)
       = Some EngineOnEnded
   \<and> onended (source_nodes (graph (after (play (run host1 [SetCurrentTrack 1] loaded2)))) ! 1)
       = None"
proof -
  let ?e = "run host1 [SetCurrentTrack 1] loaded2"
  have np: "\<not> playing ?e" by code_simp
  have r: "returned (play ?e)" by code_simp
  have ct: "currentTrack ?e = 1" by code_simp
  have l: "length (source_nodes (graph ?e)) = 0" "length (tracks ?e) = 2" by code_simp+
  note th = ended_handler_on_first_source [OF np returned_after [OF r]]
  from th have h: "\<forall>k<length (tracks ?e).
      onended (source_nodes (graph (after (play ?e))) ! (length (source_nodes (graph ?e)) + k))
        = (if k = 0 then Some EngineOnEnded else None)"
    by blast
  from l(2) have k0: "0 < length (tracks ?e)" and k1: "1 < length (tracks ?e)"
    by simp_all
  have h0: "onended (source_nodes (graph (after (play ?e))) ! 0) = Some EngineOnEnded"
    using h[rule_format, OF k0] l(1) by simp
  have h1: "onended (source_nodes (graph (after (play ?e))) ! 1) = None"
    using h[rule_format, OF k1] l(1) by simp
  from np r ct h0 h1 show ?thesis by blast
qed

lemma context_of_buffer:
  assumes "session_inv e" and "buffers e i \<noteq> None"
  shows "ctx e \<noteq> None"
  using assms by (auto simp: session_inv_def)

text \<open>
  C5. Take an engine in any state a run reaches, not playing, with a decoded buffer for
  every track and \<open>currentTrack\<close> a position of the track list. Then \<^verbatim>\<open>play()\<close>
  returns with \<open>playing\<close> set and a session of one entry per track: entry \<open>k\<close> refers
  to a new gain node and a new source node; the gain node is connected to the destination
  and has gain \<open>1\<close> if \<open>k\<close> is the current track and \<open>0\<close> otherwise; the source node
  holds the buffer of track \<open>k\<close>, is connected to that gain node and is started at time
  \<open>0\<close>. Nothing else is created and the older nodes are untouched.
\<close>

theorem play_builds_session:
  assumes "e = run h acts (PlayerEngine a w ts)"
    and "\<not> playing e"
    and "\<forall>k<length ts. buffers e (int k) \<noteq> None"
    and "0 \<le> currentTrack e" and "currentTrack e < int (length ts)"
  shows "\<exists>e'. play e = Returned e' \<and> playing e'
     \<and> playbackCtx e' =
         Some (map (\<lambda>k. Some \<lparr>gainNode = length (gain_nodes (graph e)) + k,
                                sourceNode = length (source_nodes (graph e)) + k\<rparr>)
                 [0..<length ts])
     \<and> length (gain_nodes (graph e')) = length (gain_nodes (graph e)) + length ts
     \<and> length (source_nodes (graph e')) = length (source_nodes (graph e)) + length ts
     \<and> take (length (gain_nodes (graph e))) (gain_nodes (graph e')) = gain_nodes (graph e)
     \<and> take (length (source_nodes (graph e))) (source_nodes (graph e')) = source_nodes (graph e)
     \<and> (\<forall>k<length ts.
           gain_nodes (graph e') ! (length (gain_nodes (graph e)) + k)
             = \<lparr>gain_value = (if int k = currentTrack e then 1 else 0), to_destination = True\<rparr>
           \<and> source_buffer (source_nodes (graph e') ! (length (source_nodes (graph e)) + k))
               = buffers e (int k)
           \<and> source_output (source_nodes (graph e') ! (length (source_nodes (graph e)) + k))
               = Some (length (gain_nodes (graph e)) + k)
           \<and> start_when (source_nodes (graph e') ! (length (source_nodes (graph e)) + k)) = Some 0
           \<and> stop_when (source_nodes (graph e') ! (length (source_nodes (graph e)) + k)) = None)"
proof -
  have ts: "tracks e = ts"
    by (simp add: assms(1) tracks_run tracks_init)
  from assms(4,5) have ne: "tracks e \<noteq> []" and zero: "0 < length ts"
    by (auto simp: ts)
  have "session_inv e"
    unfolding assms(1) by (intro session_inv_run session_inv_init)
  moreover from assms(3) zero have "buffers e (int 0) \<noteq> None" by blast
  ultimately obtain c where c: "ctx e = Some c"
    using context_of_buffer by blast
  let ?e' = "e\<lparr>playing := True, playbackCtx := Some (built_session e), graph := built_graph e\<rparr>"
  have play: "play e = Returned ?e'"
    using assms(2) c ne by (rule play_builds)
  have session: "playbackCtx ?e' =
         Some (map (\<lambda>k. Some \<lparr>gainNode = length (gain_nodes (graph e)) + k,
                                sourceNode = length (source_nodes (graph e)) + k\<rparr>)
                 [0..<length ts])"
    by (simp add: built_session_def built_entry_def[abs_def] ts)
  have lengths: "length (gain_nodes (graph ?e')) = length (gain_nodes (graph e)) + length ts"
    "length (source_nodes (graph ?e')) = length (source_nodes (graph e)) + length ts"
    "take (length (gain_nodes (graph e))) (gain_nodes (graph ?e')) = gain_nodes (graph e)"
    "take (length (source_nodes (graph e))) (source_nodes (graph ?e')) = source_nodes (graph e)"
    by (simp_all add: built_graph_def ts)
  have nodes: "gain_nodes (graph ?e') ! (length (gain_nodes (graph e)) + k)
             = \<lparr>gain_value = (if int k = currentTrack e then 1 else 0), to_destination = True\<rparr>
           \<and> source_buffer (source_nodes (graph ?e') ! (length (source_nodes (graph e)) + k))
               = buffers e (int k)
           \<and> source_output (source_nodes (graph ?e') ! (length (source_nodes (graph e)) + k))
               = Some (length (gain_nodes (graph e)) + k)
           \<and> start_when (source_nodes (graph ?e') ! (length (source_nodes (graph e)) + k)) = Some 0
           \<and> stop_when (source_nodes (graph ?e') ! (length (source_nodes (graph e)) + k)) = None"
    if "k < length ts" for k
    using that by (simp add: ts built_graph_gain built_graph_source built_gain_def built_source_def)
  have "playing ?e'" by simp
  with play session lengths nodes show ?thesis by blast
qed

theorem play_builds_session_witness:
  "\<not> playing loaded2
   \<and> buffers loaded2 0 = Some 10 \<and> buffers loaded2 1 = Some 11
   \<and> currentTrack loaded2 = 0
   \<and> returned (play loaded2) \<and> playing (after (play loaded2))
   \<and> playbackCtx (after (play loaded2))
       = Some [Some \<lparr>gainNode = 0, sourceNode = 0\<rparr>, Some \<lparr>gainNode = 1, sourceNode = 1\<rparr>]
   \<and> length (gain_nodes (graph (after (play loaded2)))) = 2
   \<and> length (source_nodes (graph (after (play loaded2)))) = 2
   \<and> gain_nodes (graph (after (play loaded2))) ! 0 = \<lparr>gain_value = 1, to_destination = True\<rparr>
   \<and> gain_nodes (graph (after (play loaded2))) ! 1 = \<lparr>gain_value = 0, to_destination = True\<rparr>
   \<and> source_buffer (source_nodes (graph (after (play loaded2))) ! 0) = Some 10
   \<and> source_buffer (source_nodes (graph (after (play loaded2))) ! 1) = Some 11
   \<and> source_output (source_nodes (graph (after (play loaded2))) ! 0) = Some 0
   \<and> source_output (source_nodes (graph (after (play loaded2))) ! 1) = Some 1
   \<and> start_when (source_nodes (graph (after (play loaded2))) ! 0) = Some 0
   \<and> start_when (source_nodes (graph (after (play loaded2))) ! 1) = Some 0"
proof -
  have np: "\<not> playing loaded2" by code_simp
  have b: "buffers loaded2 0 = Some 10" "buffers loaded2 1 = Some 11" by code_simp+
  have ct: "currentTrack loaded2 = 0" by code_simp
  have g: "length (gain_nodes (graph loaded2)) = 0" "length (source_nodes (graph loaded2)) = 0"
    by code_simp+
  have all: "\<forall>k<length [trackA, trackB]. buffers loaded2 (int k) \<noteq> None"
    using b by (simp add: less_Suc_eq)
  from play_builds_session [OF loaded2_def np all] ct
  obtain e' where e': "play loaded2 = Returned e'" "playing e'"
    "playbackCtx e' = Some (map (\<lambda>k. Some \<lparr>gainNode = length (gain_nodes (graph loaded2)) + k,
        sourceNode = length (source_nodes (graph loaded2)) + k\<rparr>) [0..<length [trackA, trackB]])"
    "length (gain_nodes (graph e')) = length (gain_nodes (graph loaded2)) + length [trackA, trackB]"
    "length (source_nodes (graph e')) = length (source_nodes (graph loaded2)) + length [trackA, trackB]"
    "\<forall>k<length [trackA, trackB].
           gain_nodes (graph e') ! (length (gain_nodes (graph loaded2)) + k)
             = \<lparr>gain_value = (if int k = currentTrack loaded2 then 1 else 0), to_destination = True\<rparr>
           \<and> source_buffer (source_nodes (graph e') ! (length (source_nodes (graph loaded2)) + k))
               = buffers loaded2 (int k)
           \<and> source_output (source_nodes (graph e') ! (length (source_nodes (graph loaded2)) + k))
               = Some (length (gain_nodes (graph loaded2)) + k)
           \<and> start_when (source_nodes (graph e') ! (length (source_nodes (graph loaded2)) + k)) = Some 0
           \<and> stop_when (source_nodes (graph e') ! (length (source_nodes (graph loaded2)) + k)) = None"
    by auto
  have k0: "0 < length [trackA, trackB]" and k1: "1 < length [trackA, trackB]" by simp_all
  have a: "after (play loaded2) = e'" using e'(1) by simp
  have r: "returned (play loaded2)" using e'(1) by simp
  have pc: "playbackCtx e' = Some [Some \<lparr>gainNode = 0, sourceNode = 0\<rparr>, Some \<lparr>gainNode = 1, sourceNode = 1\<rparr>]"
    using e'(3) g by (simp add: upt_rec)
  have len: "length (gain_nodes (graph e')) = 2" "length (source_nodes (graph e')) = 2"
    using e'(4,5) g by simp_all
  have n0: "gain_nodes (graph e') ! 0 = \<lparr>gain_value = 1, to_destination = True\<rparr>"
    "source_buffer (source_nodes (graph e') ! 0) = Some 10"
    "source_output (source_nodes (graph e') ! 0) = Some 0"
    "start_when (source_nodes (graph e') ! 0) = Some 0"
    using e'(6)[rule_format, OF k0] g b ct by simp_all
  have n1: "gain_nodes (graph e') ! 1 = \<lparr>gain_value = 0, to_destination = True\<rparr>"
    "source_buffer (source_nodes (graph e') ! 1) = Some 11"
    "source_output (source_nodes (graph e') ! 1) = Some 1"
    "start_when (source_nodes (graph e') ! 1) = Some 0"
    using e'(6)[rule_format, OF k1] g b ct by simp_all
  show ?thesis
    unfolding a using np b ct r e'(2) pc len n0 n1 by blast
qed

subsection \<open>One active gain\<close>

lemma one_position:
  "length (filter (\<lambda>k. int k = c) [0..<n]) \<le> 1"
proof -
  have "{k \<in> set [0..<n]. int k = c} \<subseteq> {nat c}" by auto
  then have "card {k \<in> set [0..<n]. int k = c} \<le> card {nat c}"
    by (intro card_mono) simp_all
  then show ?thesis
    by (simp add: distinct_length_filter Int_def conj_commute)
qed

lemma indicator_gains:
  fixes c :: int and n :: nat
  defines "gs \<equiv> map (\<lambda>k. Some (if int k = c then 1 else 0 :: real)) [0..<n]"
  shows "length (filter (\<lambda>g. g = Some 1) gs) \<le> 1"
    and "list_all (\<lambda>g. g = Some 1 \<or> g = Some 0) gs"
proof -
  have "filter (\<lambda>g. g = Some 1) gs = map (\<lambda>k. Some (if int k = c then 1 else 0 :: real))
      (filter (\<lambda>k. int k = c) [0..<n])"
    unfolding gs_def filter_map by (rule arg_cong[where f = "map _"], rule filter_cong) auto
  then show "length (filter (\<lambda>g. g = Some 1) gs) \<le> 1"
    using one_position[of c n] by simp
  show "list_all (\<lambda>g. g = Some 1 \<or> g = Some 0) gs"
    unfolding gs_def by (simp add: list_all_iff)
qed

lemma session_gains_empty:
  "playbackCtx e = Some [] \<Longrightarrow> session_gains e = []"
  by (simp add: session_gains_def)

lemma session_gains_full:
  assumes "playbackCtx e = Some pc" and "full_session e pc bg bs"
  shows "session_gains e =
     map (\<lambda>k. Some (gain_value (gain_nodes (graph e) ! (bg + k)))) [0..<length (tracks e)]"
  using assms by (auto simp: session_gains_def full_session_def built_entry_def)

lemma session_gains_current:
  assumes "session_inv e" and "gains_inv e" and "playing e"
  shows "session_gains e = []
     \<or> session_gains e = map (\<lambda>k. Some (if int k = currentTrack e then 1 else 0)) [0..<length (tracks e)]"
proof -
  from assms(1,3) obtain pc where pc: "playbackCtx e = Some pc"
    and "pc = [] \<or> (\<exists>bg bs. full_session e pc bg bs)"
    by (auto simp: session_inv_def)
  then consider "pc = []" | bg bs where "full_session e pc bg bs" by blast
  then show ?thesis
  proof cases
    case 1
    with pc show ?thesis by (simp add: session_gains_empty)
  next
    case 2
    have "map (\<lambda>k. Some (gain_value (gain_nodes (graph e) ! (bg + k)))) [0..<length (tracks e)]
        = map (\<lambda>k. Some (if int k = currentTrack e then 1 else 0)) [0..<length (tracks e)]"
      using gains_invD[OF assms(2,3) pc 2] by (intro map_cong) auto
    with session_gains_full[OF pc 2] show ?thesis by simp
  qed
qed

lemma invariants_give_one_active:
  assumes "session_inv e" and "gains_inv e" and "playing e"
  shows "at_most_one_active e \<and> current_only e"
  using session_gains_current[OF assms]
proof
  assume "session_gains e = []"
  then show ?thesis by (simp add: at_most_one_active_def current_only_def)
next
  assume g: "session_gains e = map (\<lambda>k. Some (if int k = currentTrack e then 1 else 0)) [0..<length (tracks e)]"
  have "at_most_one_active e"
    unfolding at_most_one_active_def g
    using indicator_gains[of "currentTrack e" "length (tracks e)"] by blast
  moreover have "current_only e"
    unfolding current_only_def using g by simp
  ultimately show ?thesis ..
qed

text \<open>
  C3. Take any state \<open>e\<close> that a run reaches in which tracks are selected by a position of
  the track list. While \<open>playing\<close> is set, at most one gain of the session is \<open>1\<close> and
  every other one is \<open>0\<close>, and the \<open>1\<close> is at the current track. A call of
  \<^verbatim>\<open>play()\<close> that returns from a state not playing establishes this, with one gain
  per track and the \<open>1\<close> at the current track. A call of \<^verbatim>\<open>setCurrentTrack(n)\<close>
  with \<open>n\<close> a position of the track list preserves it, for the new current track \<open>n\<close>.
\<close>

theorem one_active_gain:
  assumes "e = run h acts (PlayerEngine a w ts)"
    and "list_all (selects_in_range (length ts)) acts"
  shows "(playing e \<longrightarrow> at_most_one_active e \<and> current_only e)
     \<and> (\<not> playing e \<and> returned (play e) \<longrightarrow>
          playing (after (play e)) \<and> at_most_one_active (after (play e))
          \<and> session_gains (after (play e))
              = map (\<lambda>k. Some (if int k = currentTrack e then 1 else 0)) [0..<length ts])
     \<and> (playing e \<and> 0 \<le> n \<and> n < int (length ts) \<longrightarrow>
          playing (after (setCurrentTrack n e))
          \<and> at_most_one_active (after (setCurrentTrack n e))
          \<and> current_only (after (setCurrentTrack n e))
          \<and> currentTrack (after (setCurrentTrack n e)) = n
          \<and> length (session_gains (after (setCurrentTrack n e))) = length (session_gains e))"
proof -
  have ts: "tracks e = ts"
    by (simp add: assms(1) tracks_run tracks_init)
  have si: "session_inv e"
    unfolding assms(1) by (intro session_inv_run session_inv_init)
  have gi: "gains_inv e"
    unfolding assms(1) using assms(2)
    by (intro gains_inv_run session_inv_init gains_inv_init) (simp add: tracks_init)
  have first: "playing e \<longrightarrow> at_most_one_active e \<and> current_only e"
    using invariants_give_one_active[OF si gi] by blast
  have second: "playing (after (play e)) \<and> at_most_one_active (after (play e))
          \<and> session_gains (after (play e))
              = map (\<lambda>k. Some (if int k = currentTrack e then 1 else 0)) [0..<length ts]"
    if "\<not> playing e" and "returned (play e)"
  proof (cases e rule: play_cases)
    case noop
    with that show ?thesis by simp
  next
    case throws
    with that show ?thesis by simp
  next
    case builds
    let ?e' = "e\<lparr>playing := True, playbackCtx := Some (built_session e), graph := built_graph e\<rparr>"
    have a: "after (perform h Play e) = ?e'" using builds(4) by simp
    have si': "session_inv ?e'"
      using session_inv_perform[OF si, of h Play] unfolding a .
    have gi': "gains_inv ?e'"
      using gains_inv_perform[OF si gi, of Play h] unfolding a by simp
    have p': "playing ?e'" by simp
    have "session_gains ?e' =
        map (\<lambda>k. Some (gain_value (gain_nodes (graph ?e') ! (length (gain_nodes (graph e)) + k))))
          [0..<length (tracks ?e')]"
      using built_full_session[OF builds(2)] by (intro session_gains_full) simp_all
    also have "\<dots> = map (\<lambda>k. Some (if int k = currentTrack e then 1 else 0)) [0..<length ts]"
      unfolding ts[symmetric] by (intro map_cong) (simp_all add: built_graph_gain built_gain_def)
    finally have "session_gains ?e' = map (\<lambda>k. Some (if int k = currentTrack e then 1 else 0)) [0..<length ts]" .
    with invariants_give_one_active[OF si' gi' p'] show ?thesis
      by (simp add: builds(4))
  qed
  have third: "playing (after (setCurrentTrack n e))
          \<and> at_most_one_active (after (setCurrentTrack n e))
          \<and> current_only (after (setCurrentTrack n e))
          \<and> currentTrack (after (setCurrentTrack n e)) = n
          \<and> length (session_gains (after (setCurrentTrack n e))) = length (session_gains e)"
    if "playing e" and "0 \<le> n" and "n < int (length ts)"
  proof -
    let ?e' = "after (setCurrentTrack n e)"
    have a: "after (perform h (SetCurrentTrack n) e) = ?e'" by simp
    obtain gs dl where shape: "?e' = e\<lparr>currentTrack := n, graph := (graph e)\<lparr>gain_nodes := gs\<rparr>, delivered := dl\<rparr>"
      using setCurrentTrack_shape by blast
    have si': "session_inv ?e'"
      using session_inv_perform[OF si, of h "SetCurrentTrack n"] unfolding a .
    have gi': "gains_inv ?e'"
      using gains_inv_perform[OF si gi, of "SetCurrentTrack n" h] that(2,3) unfolding a by (simp add: ts)
    have p': "playing ?e'" using that(1) by (simp add: shape)
    have "currentTrack ?e' = n" by (simp add: shape)
    moreover have "length (session_gains ?e') = length (session_gains e)"
      by (simp add: shape session_gains_def split: option.splits)
    ultimately show ?thesis
      using invariants_give_one_active[OF si' gi' p'] p' by blast
  qed
  from first second third show ?thesis by blast
qed

theorem one_active_gain_witness:
  "list_all (selects_in_range (length [trackA, trackB])) (page_load @ [Play])
   \<and> playing playing2
   \<and> at_most_one_active playing2
   \<and> session_gains playing2 = [Some 1, Some 0]
   \<and> at_most_one_active (after (setCurrentTrack 1 playing2))
   \<and> session_gains (after (setCurrentTrack 1 playing2)) = [Some 0, Some 1]
   \<and> currentTrack (after (setCurrentTrack 1 playing2)) = 1"
proof -
  have sel: "list_all (selects_in_range (length [trackA, trackB])) (page_load @ [Play])"
    by (simp add: page_load_def)
  have p: "playing playing2" by code_simp
  have g: "session_gains playing2 = [Some 1, Some 0]"
    by (simp add: session_gains_def page_defs model_defs)
  have g': "session_gains (after (setCurrentTrack 1 playing2)) = [Some 0, Some 1]"
    by (simp add: session_gains_def page_defs model_defs)
  note th = one_active_gain [OF playing2_def sel, of 1]
  from th p have "at_most_one_active playing2" by blast
  moreover from th p have "at_most_one_active (after (setCurrentTrack 1 playing2))
      \<and> currentTrack (after (setCurrentTrack 1 playing2)) = 1"
    by simp
  ultimately show ?thesis
    using sel p g g' by blast
qed

subsection \<open>stop()\<close>

lemma stop_source_length [simp]:
  "length (source_nodes (stop_source s t g)) = length (source_nodes g)"
  by (simp add: stop_source_def)

lemma stop_source_stops:
  "s < length (source_nodes g) \<Longrightarrow> stop_when (source_nodes (stop_source s t g) ! s) = Some t"
  by (simp add: stop_source_def update_at_def)

lemma stop_source_keeps:
  "stop_when (source_nodes g ! s') = Some t \<Longrightarrow>
     stop_when (source_nodes (stop_source s t g) ! s') = Some t"
  by (simp add: stop_source_def update_at_def nth_list_update)

lemma stop_sources_keeps:
  "stop_when (source_nodes (graph e) ! s) = Some 0 \<Longrightarrow>
     stop_when (source_nodes (graph (after (stop_sources pc e))) ! s) = Some 0"
proof (induction pc arbitrary: e)
  case Nil
  then show ?case by simp
next
  case (Cons en pc)
  then show ?case
    by (cases en) (simp_all add: stop_source_keeps)
qed

lemma stop_sources_stops:
  assumes "list_all (\<lambda>en. en \<noteq> None) pc" and "Some p \<in> set pc"
    and "sourceNode p < length (source_nodes (graph e))"
  shows "stop_when (source_nodes (graph (after (stop_sources pc e))) ! sourceNode p) = Some 0"
  using assms
proof (induction pc arbitrary: e)
  case Nil
  then show ?case by simp
next
  case (Cons en pc)
  from Cons.prems(1) obtain q where q: "en = Some q" by auto
  let ?e' = "e\<lparr>graph := stop_source (sourceNode q) 0 (graph e)\<rparr>"
  show ?case
  proof (cases "Some p \<in> set pc")
    case True
    with Cons.prems have "stop_when (source_nodes (graph (after (stop_sources pc ?e'))) ! sourceNode p) = Some 0"
      by (intro Cons.IH) simp_all
    then show ?thesis by (simp add: q)
  next
    case False
    with Cons.prems(2) q have "q = p" by simp
    with Cons.prems(3) have "stop_when (source_nodes (graph ?e') ! sourceNode p) = Some 0"
      by (simp add: stop_source_stops)
    then have "stop_when (source_nodes (graph (after (stop_sources pc ?e'))) ! sourceNode p) = Some 0"
      by (rule stop_sources_keeps)
    then show ?thesis by (simp add: q)
  qed
qed

lemma full_session_entries:
  assumes "full_session e pc bg bs"
  shows "list_all (\<lambda>en. en \<noteq> None) pc"
    and "Some p \<in> set pc \<Longrightarrow> sourceNode p < length (source_nodes (graph e))"
  using assms by (auto simp: full_session_def built_entry_def list_all_iff)

text \<open>
  C1. As stated the claim fails: \<^verbatim>\<open>stop()\<close> never assigns \<open>playing\<close>, so after it
  \<open>playing\<close> is still true. What holds, in every state a run reaches with \<open>playing\<close>
  set: \<^verbatim>\<open>stop()\<close> returns, every source node of the session is stopped at time
  \<open>0\<close>, the session is discarded (\<open>playbackCtx\<close> is the empty array) and \<open>playing\<close>
  is left set; it is \<^verbatim>\<open>onEnded()\<close>, run afterwards, that clears \<open>playing\<close>, and it
  keeps the session discarded.
\<close>

theorem stop_discards_session:
  assumes "e = run h acts (PlayerEngine a w ts)" and "playing e"
  shows "\<exists>e' pc. stop e = Returned e' \<and> playbackCtx e = Some pc
     \<and> playbackCtx e' = Some []
     \<and> playing e'
     \<and> (\<forall>p. Some p \<in> set pc \<longrightarrow>
           stop_when (source_nodes (graph e') ! sourceNode p) = Some 0)
     \<and> playing (after (onEnded e')) = False
     \<and> playbackCtx (after (onEnded e')) = Some []"
proof -
  have si: "session_inv e"
    unfolding assms(1) by (intro session_inv_run session_inv_init)
  with assms(2) obtain pc where pc: "playbackCtx e = Some pc"
    and shape: "pc = [] \<or> (\<exists>bg bs. full_session e pc bg bs)"
    by (auto simp: session_inv_def)
  have entries: "list_all (\<lambda>en. en \<noteq> None) pc"
    and valid: "Some p \<in> set pc \<Longrightarrow> sourceNode p < length (source_nodes (graph e))" for p
    using shape full_session_entries by auto
  from stop_sources_all[OF entries] obtain e1 where e1: "stop_sources pc e = Returned e1"
    using returned_after by blast
  let ?e' = "e1\<lparr>playbackCtx := Some []\<rparr>"
  have stop: "stop e = Returned ?e'"
    using assms(2) pc e1 by (simp add: stop_def)
  obtain ss where ss: "e1 = e\<lparr>graph := (graph e)\<lparr>source_nodes := ss\<rparr>\<rparr>"
    using stop_sources_shape[of pc e] e1 by auto
  have "playing ?e'" using assms(2) by (simp add: ss)
  moreover have "stop_when (source_nodes (graph ?e') ! sourceNode p) = Some 0"
    if "Some p \<in> set pc" for p
    using stop_sources_stops[OF entries that valid[OF that]] e1 by simp
  moreover have "playing (after (onEnded ?e')) = False"
    "playbackCtx (after (onEnded ?e')) = Some []"
    by (simp_all add: onEnded_def)
  ultimately show ?thesis
    using stop pc by auto
qed

theorem stop_discards_session_witness:
  "playing playing2
   \<and> playbackCtx playing2 = Some [Some \<lparr>gainNode = 0, sourceNode = 0\<rparr>, Some \<lparr>gainNode = 1, sourceNode = 1\<rparr>]
   \<and> returned (stop playing2)
   \<and> playbackCtx (after (stop playing2)) = Some []
   \<and> stop_when (source_nodes (graph (after (stop playing2))) ! 0) = Some 0
   \<and> stop_when (source_nodes (graph (after (stop playing2))) ! 1) = Some 0
   \<and> onended (source_nodes (graph (after (stop playing2))) ! 0) = Some EngineOnEnded
   \<and> \<not> playing (run host1 [Ended 0] (after (stop playing2)))"
proof -
  have p: "playing playing2" by code_simp
  have pc: "playbackCtx playing2 = Some [Some \<lparr>gainNode = 0, sourceNode = 0\<rparr>, Some \<lparr>gainNode = 1, sourceNode = 1\<rparr>]"
    by code_simp
  from stop_discards_session [OF playing2_def p] pc
  obtain e' where e': "stop playing2 = Returned e'" "playbackCtx e' = Some []"
    "\<forall>p. Some p \<in> set [Some \<lparr>gainNode = 0, sourceNode = 0\<rparr>, Some \<lparr>gainNode = 1, sourceNode = 1\<rparr>] \<longrightarrow>
           stop_when (source_nodes (graph e') ! sourceNode p) = Some 0"
    by auto
  have a: "after (stop playing2) = e'" using e'(1) by simp
  have r: "returned (stop playing2)" using e'(1) by simp
  have e: "playbackCtx (after (stop playing2)) = Some []" using e'(2) a by simp
  have s0: "stop_when (source_nodes (graph (after (stop playing2))) ! 0) = Some 0"
    using e'(3)[rule_format, of "\<lparr>gainNode = 0, sourceNode = 0\<rparr>"] a by simp
  have s1: "stop_when (source_nodes (graph (after (stop playing2))) ! 1) = Some 0"
    using e'(3)[rule_format, of "\<lparr>gainNode = 1, sourceNode = 1\<rparr>"] a by simp
  have h: "onended (source_nodes (graph (after (stop playing2))) ! 0) = Some EngineOnEnded"
    by code_simp
  have f: "\<not> playing (run host1 [Ended 0] (after (stop playing2)))"
    by code_simp
  from p pc r e s0 s1 h f show ?thesis
    by blast
qed

theorem stop_leaves_playing_counterexample:
  "playing playing2 \<and> returned (stop playing2) \<and> playing (after (stop playing2))"
  by code_simp

subsection \<open>setCurrentTrack()\<close>

lemma currentTrack_after_setCurrentTrack: "currentTrack (after (setCurrentTrack n e)) = n"
proof -
  obtain gs dl where "after (setCurrentTrack n e)
       = e\<lparr>currentTrack := n, graph := (graph e)\<lparr>gain_nodes := gs\<rparr>, delivered := dl\<rparr>"
    using setCurrentTrack_shape by blast
  then show ?thesis by simp
qed

text \<open>
  What \<^verbatim>\<open>setCurrentTrack(n)\<close> does in every state, with \<open>cbs\<close> the listeners
  registered for \<^verbatim>\<open>trackChanged\<close>: it always sets \<open>currentTrack\<close> to \<open>n\<close>;
  unless the switch of gains fails it returns and has called each listener once with
  \<open>n\<close>, in order, whether the engine is playing or not and whether \<open>n\<close> is the
  previous track or not; and when the switch fails it throws before \<^verbatim>\<open>emitEvent\<close>
  and no listener is called.
\<close>

lemma setCurrentTrack_emits:
  assumes "events e ''trackChanged'' = Some cbs"
  shows "currentTrack (after (setCurrentTrack n e)) = n
     \<and> (\<not> switch_fails n e \<longrightarrow>
          returned (setCurrentTrack n e)
          \<and> delivered (after (setCurrentTrack n e)) = delivered e @ map (\<lambda>cb. (cb, Num n)) cbs)
     \<and> (switch_fails n e \<longrightarrow>
          \<not> returned (setCurrentTrack n e)
          \<and> delivered (after (setCurrentTrack n e)) = delivered e)"
proof -
  have emit: "emitEvent ''trackChanged'' (Num n) x
      = Returned (x\<lparr>delivered := delivered x @ map (\<lambda>cb. (cb, Num n)) cbs\<rparr>)"
    if "events x = events e" for x :: engine
    using that assms by (intro emitEvent_declared) simp
  have ok: "returned (setCurrentTrack n e)
          \<and> delivered (after (setCurrentTrack n e)) = delivered e @ map (\<lambda>cb. (cb, Num n)) cbs"
    if "\<not> switch_fails n e"
  proof (cases "playing e \<and> playbackCtx e \<noteq> None \<and> n \<noteq> currentTrack e")
    case False
    show ?thesis
      unfolding setCurrentTrack_plain[OF False] by (simp add: emit)
  next
    case True
    then obtain pc where pc: "playbackCtx e = Some pc" by auto
    with that True obtain en_old en_num where
      "js_get pc (currentTrack e) = Some en_old" "js_get pc n = Some en_num"
      by (auto simp: switch_fails_def)
    with True pc show ?thesis
      by (simp add: setCurrentTrack_switch[where pc = pc] emit)
  qed
  have fails: "\<not> returned (setCurrentTrack n e)
          \<and> delivered (after (setCurrentTrack n e)) = delivered e"
    if "switch_fails n e"
  proof -
    from that obtain pc where pc: "playbackCtx e = Some pc" and p: "playing e"
      and d: "n \<noteq> currentTrack e"
      and miss: "js_get pc (currentTrack e) = None \<or> js_get pc n = None"
      by (auto simp: switch_fails_def split: option.splits)
    then show ?thesis
      by (auto simp: setCurrentTrack_def Let_def split: option.splits)
  qed
  from ok fails currentTrack_after_setCurrentTrack[of n e] show ?thesis by blast
qed

lemma setCurrentTrack_emits_examples:
  "events playing2 ''trackChanged'' = Some [7]
   \<and> \<not> switch_fails 1 playing2
   \<and> delivered playing2 = []
   \<and> currentTrack (after (setCurrentTrack 1 playing2)) = 1
   \<and> delivered (after (setCurrentTrack 1 playing2)) = [(7, Num 1)]
   \<and> events loaded2 ''trackChanged'' = Some [7]
   \<and> \<not> switch_fails 0 loaded2
   \<and> delivered (after (setCurrentTrack 0 loaded2)) = [(7, Num 0)]
   \<and> events stopped2 ''trackChanged'' = Some [7]
   \<and> switch_fails 1 stopped2
   \<and> \<not> returned (setCurrentTrack 1 stopped2)
   \<and> currentTrack (after (setCurrentTrack 1 stopped2)) = 1"
proof -
  have ev: "events playing2 ''trackChanged'' = Some [7]" "events loaded2 ''trackChanged'' = Some [7]"
    "events stopped2 ''trackChanged'' = Some [7]"
    by code_simp+
  have sf: "\<not> switch_fails 1 playing2" "\<not> switch_fails 0 loaded2" "switch_fails 1 stopped2"
    by code_simp+
  have d: "delivered playing2 = []" "delivered loaded2 = []"
    by code_simp+
  from setCurrentTrack_emits [OF ev(1), of 1] sf(1) d(1)
  have a: "currentTrack (after (setCurrentTrack 1 playing2)) = 1"
    "delivered (after (setCurrentTrack 1 playing2)) = [(7, Num 1)]"
    by simp_all
  from setCurrentTrack_emits [OF ev(2), of 0] sf(2) d(2)
  have b: "delivered (after (setCurrentTrack 0 loaded2)) = [(7, Num 0)]"
    by simp
  from setCurrentTrack_emits [OF ev(3), of 1] sf(3)
  have c: "\<not> returned (setCurrentTrack 1 stopped2)"
    "currentTrack (after (setCurrentTrack 1 stopped2)) = 1"
    by simp_all
  from ev sf d a b c show ?thesis by blast
qed

text \<open>
  C4. The claim asks that \<^verbatim>\<open>setCurrentTrack(n)\<close> set \<open>currentTrack\<close> to \<open>n\<close> and
  emit exactly one \<^verbatim>\<open>trackChanged\<close> carrying \<open>n\<close> in every state. The code does so
  wherever the switch of gains can be carried out, and breaks it in a state that its own
  guard \<^verbatim>\<open>this.playing && this.playbackCtx && num != old\<close> is there for: after
  \<^verbatim>\<open>play()\<close> and \<^verbatim>\<open>stop()\<close> the session is the empty array and \<open>playing\<close> is
  still set; the empty array passes the guard, \<^verbatim>\<open>this.playbackCtx[old]\<close> is
  \<^verbatim>\<open>undefined\<close>, and the call throws before the unconditional \<^verbatim>\<open>emitEvent\<close>
  of its last line. Evaluated on the page with two tracks, for the second track (index
  \<open>1\<close>, a position of the track list) and the one listener \<open>7\<close>: the call throws a
  TypeError, \<open>currentTrack\<close> has become \<open>1\<close>, and the listener has not been called,
  where the claim has it called once with \<open>1\<close>.
\<close>

theorem setCurrentTrack_after_stop_throws:
  "stopped2 = run host1 (page_load @ [Play, Stop]) (PlayerEngine True False [trackA, trackB])
   \<and> playing stopped2 \<and> playbackCtx stopped2 = Some []
   \<and> events stopped2 ''trackChanged'' = Some [7]
   \<and> currentTrack stopped2 = 0
   \<and> length (tracks stopped2) = 2
   \<and> delivered stopped2 = []
   \<and> setCurrentTrack 1 stopped2 = Threw TypeError (stopped2\<lparr>currentTrack := 1\<rparr>)
   \<and> \<not> returned (setCurrentTrack 1 stopped2)
   \<and> currentTrack (after (setCurrentTrack 1 stopped2)) = 1
   \<and> delivered (after (setCurrentTrack 1 stopped2)) = []
   \<and> delivered (after (setCurrentTrack 1 stopped2)) \<noteq> delivered stopped2 @ [(7, Num 1)]"
proof -
  have f: "playing stopped2" "playbackCtx stopped2 = Some []"
    "events stopped2 ''trackChanged'' = Some [7]" "currentTrack stopped2 = 0"
    "length (tracks stopped2) = 2" "delivered stopped2 = []"
    by code_simp+
  have t: "setCurrentTrack 1 stopped2 = Threw TypeError (stopped2\<lparr>currentTrack := 1\<rparr>)"
    using f(1,2,4) by (simp add: setCurrentTrack_def js_get_def)
  have "\<not> returned (setCurrentTrack 1 stopped2)"
    "currentTrack (after (setCurrentTrack 1 stopped2)) = 1"
    "delivered (after (setCurrentTrack 1 stopped2)) = []"
    using f(6) by (simp_all add: t)
  with f t stopped2_def show ?thesis by simp
qed

subsection \<open>The current track\<close>

lemma currentTrack_play: "currentTrack (after (play e)) = currentTrack e"
  by (cases e rule: play_cases) simp_all

lemma currentTrack_stop: "currentTrack (after (stop e)) = currentTrack e"
proof -
  obtain ss pc' where "after (stop e) = e\<lparr>graph := (graph e)\<lparr>source_nodes := ss\<rparr>, playbackCtx := pc'\<rparr>"
    using stop_shape by blast
  then show ?thesis by simp
qed

lemma currentTrack_loadTracks: "currentTrack (after (loadTracks h e)) = currentTrack e"
proof -
  obtain rq where "after (loadTracks h e) = e\<lparr>requests := rq\<rparr>"
    using loadTracks_shape by blast
  then show ?thesis by simp
qed

lemma currentTrack_trackLoadedCallback:
  "currentTrack (after (trackLoadedCallback t decoded e)) = currentTrack e"
proof -
  obtain b dl where "after (trackLoadedCallback t decoded e) = e\<lparr>buffers := b, delivered := dl\<rparr>"
    using trackLoadedCallback_shape by blast
  then show ?thesis by simp
qed

lemma currentTrack_trackDecodedCallback:
  "currentTrack (after (trackDecodedCallback t b e)) = currentTrack e"
proof -
  let ?e1 = "e\<lparr>buffers := (buffers e)(indexOf (tracks e) t \<mapsto> b)\<rparr>"
  obtain dl where "after (emitEvent ''trackLoaded'' EmptyObject ?e1) = ?e1\<lparr>delivered := dl\<rparr>"
    using emitEvent_shape by blast
  then show ?thesis by (simp add: trackDecodedCallback_def)
qed

lemma currentTrack_addEventListener:
  "currentTrack (after (addEventListener evt cb e)) = currentTrack e"
proof -
  obtain ev where "after (addEventListener evt cb e) = e\<lparr>events := ev\<rparr>"
    using addEventListener_shape by blast
  then show ?thesis by simp
qed

lemma currentTrack_perform:
  assumes "\<forall>m. act \<noteq> SetCurrentTrack m"
  shows "currentTrack (after (perform h act e)) = currentTrack e"
  using assms
  by (cases act)
    (simp_all add: currentTrack_play currentTrack_stop currentTrack_loadTracks
      currentTrack_trackLoadedCallback currentTrack_addEventListener onEnded_def)

text \<open>
  C7. As stated the claim fails: \<^verbatim>\<open>setCurrentTrack\<close> stores whatever index it is
  given, and with an empty track list the initial index \<open>0\<close> is no position of the list.
  What holds: in every state reached by a run of an engine with at least one track in
  which every selected index is a position of the track list, \<open>currentTrack\<close> is a
  position of the track list; \<^verbatim>\<open>setCurrentTrack(n)\<close> sets it to \<open>n\<close>; and in any
  state \<open>x\<close> whatsoever it is left as it is by \<^verbatim>\<open>play()\<close>, \<^verbatim>\<open>stop()\<close>,
  \<^verbatim>\<open>onEnded()\<close>, the load path and every other operation, whether they return or
  throw.
\<close>

theorem currentTrack_in_range:
  assumes "e = run h acts (PlayerEngine a w ts)"
    and "ts \<noteq> []"
    and "list_all (selects_in_range (length ts)) acts"
  shows "0 \<le> currentTrack e \<and> currentTrack e < int (length ts)
     \<and> currentTrack (after (setCurrentTrack n x)) = n
     \<and> currentTrack (after (play x)) = currentTrack x
     \<and> currentTrack (after (stop x)) = currentTrack x
     \<and> currentTrack (after (onEnded x)) = currentTrack x
     \<and> currentTrack (after (loadTracks h x)) = currentTrack x
     \<and> currentTrack (after (trackLoadedCallback t decoded x)) = currentTrack x
     \<and> currentTrack (after (trackDecodedCallback t b x)) = currentTrack x
     \<and> ((\<forall>m. act \<noteq> SetCurrentTrack m) \<longrightarrow>
          currentTrack (after (perform h act x)) = currentTrack x)
     \<and> currentTrack (after (play (after (stop (after (play x)))))) = currentTrack x"
proof -
  have ts: "tracks e = ts"
    by (simp add: assms(1) tracks_run tracks_init)
  have "gains_inv e"
    unfolding assms(1) using assms(3)
    by (intro gains_inv_run session_inv_init gains_inv_init) (simp add: tracks_init)
  then have "0 \<le> currentTrack e \<and> currentTrack e < int (length ts)"
    using gains_inv_range[of e] assms(2) by (simp add: ts)
  moreover have "currentTrack (after (onEnded x)) = currentTrack x"
    by (simp add: onEnded_def)
  moreover have "currentTrack (after (play (after (stop (after (play x)))))) = currentTrack x"
    by (simp add: currentTrack_play currentTrack_stop)
  ultimately show ?thesis
    using currentTrack_after_setCurrentTrack[of n x] currentTrack_play[of x] currentTrack_stop[of x]
      currentTrack_loadTracks[of h x] currentTrack_trackLoadedCallback[of t decoded x]
      currentTrack_trackDecodedCallback[of t b x] currentTrack_perform[of act h x]
    by blast
qed

theorem currentTrack_in_range_witness:
  "[trackA, trackB] \<noteq> []
   \<and> list_all (selects_in_range (length [trackA, trackB])) (page_load @ [Play, SetCurrentTrack 1, Stop])
   \<and> currentTrack (run host1 (page_load @ [Play, SetCurrentTrack 1, Stop])
        (PlayerEngine True False [trackA, trackB])) = 1
   \<and> currentTrack (after (stop playing2)) = currentTrack playing2
   \<and> currentTrack (after (perform host1 (Ended 0) playing2)) = currentTrack playing2"
proof -
  let ?acts = "page_load @ [Play, SetCurrentTrack 1, Stop]"
  let ?e = "run host1 ?acts (PlayerEngine True False [trackA, trackB])"
  have ne: "[trackA, trackB] \<noteq> []" by simp
  have sel: "list_all (selects_in_range (length [trackA, trackB])) ?acts"
    by (simp add: page_load_def)
  have ct: "currentTrack ?e = 1" by code_simp
  have act: "\<forall>m. Ended 0 \<noteq> SetCurrentTrack m" by simp
  note th = currentTrack_in_range [OF refl ne sel, where h = host1 and x = playing2
      and act = "Ended 0" and n = 1 and t = trackA and decoded = None and b = 10]
  from th act have "currentTrack (after (stop playing2)) = currentTrack playing2"
    "currentTrack (after (perform host1 (Ended 0) playing2)) = currentTrack playing2"
    by blast+
  with ne sel ct show ?thesis by blast
qed

theorem currentTrack_out_of_range_counterexample:
  "currentTrack (run host1 (page_load @ [SetCurrentTrack 5]) (PlayerEngine True False [trackA, trackB])) = 5
   \<and> length (tracks (run host1 (page_load @ [SetCurrentTrack 5]) (PlayerEngine True False [trackA, trackB]))) = 2
   \<and> currentTrack (PlayerEngine True False []) = 0
   \<and> length (tracks (PlayerEngine True False [])) = 0"
  by code_simp

end
